theory Spec2Isabelle
  imports Main "HOL-Library.Multiset"
begin

section \<open>Data model\<close>

text \<open>
  The access-control core of the repository lives in its SQL migrations: the tables
  \<^verbatim>\<open>organizations\<close>, \<^verbatim>\<open>organization_members\<close>, \<^verbatim>\<open>invitations\<close> and \<^verbatim>\<open>profiles\<close>,
  the helper functions of \<^verbatim>\<open>20250127_super_admin_helpers.sql\<close> and the signup trigger
  \<^verbatim>\<open>handle_invitation_signup\<close>.

  A UUID is an opaque identifier (a natural number here), a \<^verbatim>\<open>TIMESTAMPTZ\<close> is a
  number of microseconds, \<^verbatim>\<open>TEXT\<close> is a string. A nullable column is an option.
  A table is the list of its rows in insertion order.
\<close>

type_synonym uuid = nat
type_synonym timestamptz = int

datatype org_role = Owner | Admin | Viewer | Super_admin

record organization =
  o_id :: uuid
  o_name :: string
  o_is_public :: bool
  o_created_at :: timestamptz
  o_updated_at :: timestamptz

record organization_member =
  m_id :: uuid
  m_org_id :: uuid
  m_user_id :: uuid
  m_role :: org_role
  m_created_at :: timestamptz

record invitation =
  i_id :: uuid
  i_email :: string
  i_token :: string
  i_role :: org_role
  i_org_id :: "uuid option"
  i_invited_by :: "uuid option"
  i_expires_at :: timestamptz
  i_used_at :: "timestamptz option"
  i_created_at :: timestamptz

record profile =
  pr_id :: uuid
  pr_email :: string
  pr_display_name :: "string option"
  pr_created_at :: timestamptz
  pr_updated_at :: timestamptz

record db =
  organizations :: "organization list"
  organization_members :: "organization_member list"
  invitations :: "invitation list"
  profiles :: "profile list"

text \<open>
  What a call reads from outside the tables: the transaction's \<^verbatim>\<open>now()\<close>, the caller
  \<^verbatim>\<open>auth.uid()\<close> (null when nobody is signed in), the values that
  \<^verbatim>\<open>gen_random_uuid()\<close> returns for the column defaults (numbered by call within the
  transaction), and three facts of the installation that the migrations do not fix:
  the schema that holds the function \<^verbatim>\<open>gen_random_bytes\<close> of the extension pgcrypto
  (none when the extension is not installed), the text that
  \<^verbatim>\<open>encode(gen_random_bytes(32), 'base64')\<close> yields, and which of several qualifying rows
  a query with \<^verbatim>\<open>LIMIT 1\<close> and no \<^verbatim>\<open>ORDER BY\<close> meets first.
\<close>

record env =
  now :: timestamptz
  auth_uid :: "uuid option"
  gen_random_uuid :: "nat \<Rightarrow> uuid"
  gen_random_bytes_schema :: "string option"
  random_token :: string
  scan_first :: nat

text \<open>The row \<^verbatim>\<open>NEW\<close> of \<^verbatim>\<open>auth.users\<close> that fires the signup trigger; the third field is
  \<^verbatim>\<open>raw_user_meta_data->>'display_name'\<close>.\<close>

record auth_user =
  au_id :: uuid
  au_email :: string
  au_display_name :: "string option"

text \<open>
  \<^verbatim>\<open>RAISE EXCEPTION\<close> and the violations of the declared constraints are values; a
  function that fails returns no new store, the transaction being rolled back.
\<close>

datatype error =
  Exception string
  | Unique_violation string
  | Foreign_key_violation string
  | Not_null_violation string
  | Undefined_function string

definition days :: "int \<Rightarrow> timestamptz" where
  "days n = n * 86400000000"

section \<open>Inserts under the declared constraints\<close>

definition insert_organization :: "organization \<Rightarrow> db \<Rightarrow> error + db" where
  "insert_organization r d =
     (if o_id r \<in> set (map o_id (organizations d))
      then Inl (Unique_violation ''organizations_pkey'')
      else Inr (d\<lparr>organizations := organizations d @ [r]\<rparr>))"

definition insert_organization_member :: "organization_member \<Rightarrow> db \<Rightarrow> error + db" where
  "insert_organization_member r d =
     (if m_id r \<in> set (map m_id (organization_members d))
      then Inl (Unique_violation ''organization_members_pkey'')
      else if list_ex (\<lambda>m. m_org_id m = m_org_id r \<and> m_user_id m = m_user_id r)
                (organization_members d)
      then Inl (Unique_violation ''organization_members_org_id_user_id_key'')
      else if m_org_id r \<notin> set (map o_id (organizations d))
      then Inl (Foreign_key_violation ''organization_members_org_id_fkey'')
      else Inr (d\<lparr>organization_members := organization_members d @ [r]\<rparr>))"

definition insert_invitation :: "invitation \<Rightarrow> db \<Rightarrow> error + db" where
  "insert_invitation r d =
     (if i_id r \<in> set (map i_id (invitations d))
      then Inl (Unique_violation ''invitations_pkey'')
      else if i_token r \<in> set (map i_token (invitations d))
      then Inl (Unique_violation ''invitations_token_key'')
      else if (case i_org_id r of None \<Rightarrow> False
               | Some g \<Rightarrow> g \<notin> set (map o_id (organizations d)))
      then Inl (Foreign_key_violation ''invitations_org_id_fkey'')
      else Inr (d\<lparr>invitations := invitations d @ [r]\<rparr>))"

definition insert_profile :: "profile \<Rightarrow> db \<Rightarrow> error + db" where
  "insert_profile r d =
     (if pr_id r \<in> set (map pr_id (profiles d))
      then Inl (Unique_violation ''profiles_pkey'')
      else Inr (d\<lparr>profiles := profiles d @ [r]\<rparr>))"

text \<open>A remote procedure call is one transaction: on an error the store stays as it was.\<close>

definition rpc :: "(db \<Rightarrow> error + 'a \<times> db) \<Rightarrow> db \<Rightarrow> (error + 'a) \<times> db" where
  "rpc f d = (case f d of Inl e \<Rightarrow> (Inl e, d) | Inr (r, d') \<Rightarrow> (Inr r, d'))"

section \<open>Role resolver\<close>

text \<open>
  \<^verbatim>\<open>is_super_admin(user_id UUID DEFAULT auth.uid())\<close> looks for a membership row of
  \<^verbatim>\<open>COALESCE($1, auth.uid())\<close> with role \<^verbatim>\<open>super_admin\<close>; a null user matches no row.
\<close>

definition is_super_admin :: "db \<Rightarrow> env \<Rightarrow> uuid option \<Rightarrow> bool" where
  "is_super_admin d e user_id =
     (case (case user_id of Some u \<Rightarrow> Some u | None \<Rightarrow> auth_uid e) of
        None \<Rightarrow> False
      | Some u \<Rightarrow> list_ex (\<lambda>m. m_user_id m = u \<and> m_role m = Super_admin)
                   (organization_members d))"

definition get_user_org_role :: "db \<Rightarrow> uuid \<Rightarrow> uuid \<Rightarrow> org_role option" where
  "get_user_org_role d user_id org_id =
     (case filter (\<lambda>m. m_user_id m = user_id \<and> m_org_id m = org_id) (organization_members d) of
        [] \<Rightarrow> None
      | m # _ \<Rightarrow> Some (m_role m))"

definition user_is_org_member :: "db \<Rightarrow> uuid \<Rightarrow> uuid \<Rightarrow> bool" where
  "user_is_org_member d user_id org_id =
     list_ex (\<lambda>m. m_user_id m = user_id \<and> m_org_id m = org_id) (organization_members d)"

section \<open>Administrative command surface\<close>

subsection \<open>The e-mail pattern and \<^verbatim>\<open>LOWER\<close>\<close>

definition is_upper :: "char \<Rightarrow> bool" where
  "is_upper c = (65 \<le> (of_char c :: nat) \<and> (of_char c :: nat) \<le> 90)"

definition is_lower :: "char \<Rightarrow> bool" where
  "is_lower c = (97 \<le> (of_char c :: nat) \<and> (of_char c :: nat) \<le> 122)"

definition is_digit :: "char \<Rightarrow> bool" where
  "is_digit c = (48 \<le> (of_char c :: nat) \<and> (of_char c :: nat) \<le> 57)"

definition is_alpha :: "char \<Rightarrow> bool" where
  "is_alpha c = (is_upper c \<or> is_lower c)"

text \<open>The bracket expressions \<^verbatim>\<open>[A-Za-z0-9._%+-]\<close> and \<^verbatim>\<open>[A-Za-z0-9.-]\<close>.\<close>

definition local_char :: "char \<Rightarrow> bool" where
  "local_char c = (is_alpha c \<or> is_digit c \<or> c \<in> set ''._%+-'')"

definition domain_char :: "char \<Rightarrow> bool" where
  "domain_char c = (is_alpha c \<or> is_digit c \<or> c \<in> set ''.-'')"

text \<open>
  \<^verbatim>\<open>p_email ~ '^[A-Za-z0-9._%+-]+@[A-Za-z0-9.-]+\.[A-Za-z]{2,}$'\<close>. Neither bracket
  expression contains \<^verbatim>\<open>@\<close>, so the local part is what precedes the first \<^verbatim>\<open>@\<close>; the
  last bracket expression has no dot, so the top-level part is what follows the last dot.
\<close>

definition email_format_ok :: "string \<Rightarrow> bool" where
  "email_format_ok s =
     (let l = takeWhile (\<lambda>c. c \<noteq> CHR ''@'') s;
          r = dropWhile (\<lambda>c. c \<noteq> CHR ''@'') s
      in case r of
           [] \<Rightarrow> False
         | _ # rest \<Rightarrow>
             l \<noteq> [] \<and> list_all local_char l \<and>
             (let t = rev (takeWhile (\<lambda>c. c \<noteq> CHR ''.'') (rev rest));
                  q = rev (dropWhile (\<lambda>c. c \<noteq> CHR ''.'') (rev rest))
              in case q of
                   [] \<Rightarrow> False
                 | _ # _ \<Rightarrow>
                     butlast q \<noteq> [] \<and> list_all domain_char (butlast q) \<and>
                     2 \<le> length t \<and> list_all is_alpha t))"

text \<open>\<^verbatim>\<open>LOWER\<close> on the letters the pattern admits: \<^verbatim>\<open>A\<close>..\<^verbatim>\<open>Z\<close> go to \<^verbatim>\<open>a\<close>..\<^verbatim>\<open>z\<close>.\<close>

definition lower_char :: "char \<Rightarrow> char" where
  "lower_char c = (if is_upper c then char_of ((of_char c :: nat) + 32) else c)"

definition LOWER :: "string \<Rightarrow> string" where
  "LOWER s = map lower_char s"

subsection \<open>The invitation token\<close>

text \<open>
  An unqualified function name is looked up in \<^verbatim>\<open>pg_catalog\<close> and then in the schemas
  of the search path in force.
\<close>

definition function_resolves :: "string list \<Rightarrow> string option \<Rightarrow> bool" where
  "function_resolves search_path schema =
     (case schema of None \<Rightarrow> False | Some s \<Rightarrow> s \<in> set (''pg_catalog'' # search_path))"

text \<open>
  \<^verbatim>\<open>generate_invitation_token()\<close> is
  \<^verbatim>\<open>SELECT encode(gen_random_bytes(32), 'base64')\<close>, declared without a search path of
  its own: it runs under the search path of its caller, and the call of
  \<^verbatim>\<open>gen_random_bytes\<close> is not qualified. Where the name does not resolve the call
  raises \<^verbatim>\<open>undefined_function\<close> (42883).
\<close>

definition generate_invitation_token :: "env \<Rightarrow> string list \<Rightarrow> error + string" where
  "generate_invitation_token e search_path =
     (if function_resolves search_path (gen_random_bytes_schema e)
      then Inr (random_token e)
      else Inl (Undefined_function ''gen_random_bytes(integer)''))"

subsection \<open>The functions of \<^verbatim>\<open>20250127_super_admin_helpers.sql\<close>\<close>

text \<open>
  Each of them is declared \<^verbatim>\<open>SET search_path = ''\<close>; \<^verbatim>\<open>create_user_invitation\<close>
  calls the token function under that empty search path, after its two checks and before
  the \<^verbatim>\<open>INSERT\<close>.
\<close>

definition create_user_invitation ::
  "env \<Rightarrow> string \<Rightarrow> org_role \<Rightarrow> uuid option \<Rightarrow> db \<Rightarrow> error + uuid \<times> db" where
  "create_user_invitation e p_email p_role p_org_id d =
     (if \<not> is_super_admin d e (auth_uid e)
      then Inl (Exception ''Only super admin can create invitations'')
      else if \<not> email_format_ok p_email
      then Inl (Exception ''Invalid email format'')
      else
        case generate_invitation_token e [] of
          Inl err \<Rightarrow> Inl err
        | Inr token \<Rightarrow>
            (let invitation_id = gen_random_uuid e 0
             in (case insert_invitation
                        \<lparr>i_id = invitation_id, i_email = LOWER p_email, i_token = token,
                         i_role = p_role, i_org_id = p_org_id, i_invited_by = auth_uid e,
                         i_expires_at = now e + days 7, i_used_at = None,
                         i_created_at = now e\<rparr> d of
                   Inl err \<Rightarrow> Inl err
                 | Inr d' \<Rightarrow> Inr (invitation_id, d'))))"

definition revoke_invitation :: "env \<Rightarrow> uuid \<Rightarrow> db \<Rightarrow> error + bool \<times> db" where
  "revoke_invitation e invitation_id d =
     (if \<not> is_super_admin d e (auth_uid e)
      then Inl (Exception ''Only super admin can revoke invitations'')
      else Inr (list_ex (\<lambda>i. i_id i = invitation_id) (invitations d),
                d\<lparr>invitations :=
                    map (\<lambda>i. if i_id i = invitation_id
                              then i\<lparr>i_expires_at := now e - days 1\<rparr> else i)
                      (invitations d)\<rparr>))"

definition promote_user_to_owner :: "env \<Rightarrow> uuid \<Rightarrow> uuid \<Rightarrow> db \<Rightarrow> error + bool \<times> db" where
  "promote_user_to_owner e p_user_id p_org_id d =
     (if \<not> is_super_admin d e (auth_uid e)
      then Inl (Exception ''Only super admin can promote users'')
      else Inr (list_ex (\<lambda>m. m_user_id m = p_user_id \<and> m_org_id m = p_org_id)
                  (organization_members d),
                d\<lparr>organization_members :=
                    map (\<lambda>m. if m_user_id m = p_user_id \<and> m_org_id m = p_org_id
                              then m\<lparr>m_role := Owner\<rparr> else m)
                      (organization_members d)\<rparr>))"

definition create_organization_as_super_admin ::
  "env \<Rightarrow> string \<Rightarrow> bool \<Rightarrow> db \<Rightarrow> error + uuid \<times> db" where
  "create_organization_as_super_admin e p_name p_is_public d =
     (if \<not> is_super_admin d e (auth_uid e)
      then Inl (Exception ''Only super admin can create organizations directly'')
      else
        let org_id = gen_random_uuid e 0
        in case insert_organization
                  \<lparr>o_id = org_id, o_name = p_name, o_is_public = p_is_public,
                   o_created_at = now e, o_updated_at = now e\<rparr> d of
             Inl err \<Rightarrow> Inl err
           | Inr d1 \<Rightarrow>
               (case auth_uid e of
                  None \<Rightarrow> Inl (Not_null_violation ''user_id'')
                | Some caller \<Rightarrow>
                    (case insert_organization_member
                            \<lparr>m_id = gen_random_uuid e 1, m_org_id = org_id,
                             m_user_id = caller, m_role = Owner,
                             m_created_at = now e\<rparr> d1 of
                       Inl err \<Rightarrow> Inl err
                     | Inr d2 \<Rightarrow> Inr (org_id, d2))))"

record pending_invitation =
  pi_id :: uuid
  pi_email :: string
  pi_role :: org_role
  pi_org_name :: string
  pi_expires_at :: timestamptz
  pi_created_at :: timestamptz

text \<open>\<^verbatim>\<open>FROM invitations i LEFT JOIN organizations o ON i.org_id = o.id\<close>: an invitation
  is paired with every organization row of its \<^verbatim>\<open>org_id\<close>, or with null when there is none.\<close>

definition left_join_organizations :: "db \<Rightarrow> invitation \<Rightarrow> (invitation \<times> organization option) list" where
  "left_join_organizations d i =
     (case filter (\<lambda>g. i_org_id i = Some (o_id g)) (organizations d) of
        [] \<Rightarrow> [(i, None)]
      | g # gs \<Rightarrow> map (\<lambda>g'. (i, Some g')) (g # gs))"

text \<open>\<^verbatim>\<open>ORDER BY created_at DESC\<close> is a stable sort on the negated timestamp: rows of equal
  \<^verbatim>\<open>created_at\<close>, whose order SQL leaves open, keep their table order.\<close>

definition get_pending_invitations :: "env \<Rightarrow> db \<Rightarrow> pending_invitation list" where
  "get_pending_invitations e d =
     map (\<lambda>(i, g). \<lparr>pi_id = i_id i, pi_email = i_email i, pi_role = i_role i,
                     pi_org_name = (case g of None \<Rightarrow> ''No Organization'' | Some g' \<Rightarrow> o_name g'),
                     pi_expires_at = i_expires_at i, pi_created_at = i_created_at i\<rparr>)
       (sort_key (\<lambda>(i, g). - i_created_at i)
          (filter (\<lambda>(i, g). is_super_admin d e (auth_uid e) \<and> i_used_at i = None \<and>
                              now e < i_expires_at i)
             (concat (map (left_join_organizations d) (invitations d)))))"

section \<open>Invitation redemption: the signup trigger\<close>

text \<open>
  \<^verbatim>\<open>SELECT * INTO invitation_record FROM invitations WHERE email = NEW.email AND
  used_at IS NULL AND expires_at > now() ORDER BY created_at DESC LIMIT 1\<close>.
\<close>

definition select_invitation :: "env \<Rightarrow> auth_user \<Rightarrow> db \<Rightarrow> invitation option" where
  "select_invitation e NEW d =
     (case sort_key (\<lambda>i. - i_created_at i)
             (filter (\<lambda>i. i_email i = au_email NEW \<and> i_used_at i = None \<and>
                            now e < i_expires_at i) (invitations d)) of
        [] \<Rightarrow> None
      | i # _ \<Rightarrow> Some i)"

text \<open>
  \<^verbatim>\<open>IF invitation_record IS NOT NULL\<close>. The variable is declared \<^verbatim>\<open>RECORD\<close>, so the
  test is on a row value, and for a row value PostgreSQL defines the two tests field by
  field (manual, chapter on comparison functions and operators): \<^verbatim>\<open>IS NULL\<close> is true when
  the row is null or all of its fields are null, \<^verbatim>\<open>IS NOT NULL\<close> is true when the row is
  not null and all of its fields are not null; a row that has both null and non-null fields
  passes neither test. After a \<^verbatim>\<open>SELECT INTO\<close> that found no row the variable holds nulls
  only. The columns declared \<^verbatim>\<open>NOT NULL\<close> always hold a value, which leaves the three
  nullable columns of \<^verbatim>\<open>invitations\<close>: \<^verbatim>\<open>org_id\<close>, \<^verbatim>\<open>invited_by\<close> and \<^verbatim>\<open>used_at\<close>.
\<close>

definition invitation_record_is_not_null :: "invitation option \<Rightarrow> bool" where
  "invitation_record_is_not_null r =
     (case r of
        None \<Rightarrow> False
      | Some i \<Rightarrow> i_org_id i \<noteq> None \<and> i_invited_by i \<noteq> None \<and> i_used_at i \<noteq> None)"

text \<open>\<^verbatim>\<open>SELECT id INTO public_org_id FROM organizations WHERE is_public = true LIMIT 1\<close>:
  there is no \<^verbatim>\<open>ORDER BY\<close>, so the query returns whichever public organization the scan
  meets first, and null when no organization is public.\<close>

definition select_public_org :: "env \<Rightarrow> db \<Rightarrow> uuid option" where
  "select_public_org e d =
     (case filter o_is_public (organizations d) of
        [] \<Rightarrow> None
      | g # gs \<Rightarrow> Some (o_id ((g # gs) ! (scan_first e mod length (g # gs)))))"

definition new_profile :: "env \<Rightarrow> auth_user \<Rightarrow> profile" where
  "new_profile e NEW =
     \<lparr>pr_id = au_id NEW, pr_email = au_email NEW,
      pr_display_name = Some (case au_display_name NEW of None \<Rightarrow> au_email NEW | Some n \<Rightarrow> n),
      pr_created_at = now e, pr_updated_at = now e\<rparr>"

definition and_then :: "error + 'a \<Rightarrow> ('a \<Rightarrow> error + 'b) \<Rightarrow> error + 'b" where
  "and_then r f = (case r of Inl err \<Rightarrow> Inl err | Inr x \<Rightarrow> f x)"

text \<open>The branch taken when the test on \<^verbatim>\<open>invitation_record\<close> succeeds (lines 114 to 150
  of the migration).\<close>

definition invited_signup :: "env \<Rightarrow> auth_user \<Rightarrow> invitation \<Rightarrow> db \<Rightarrow> error + db" where
  "invited_signup e NEW invitation_record d =
     and_then
       (insert_profile (new_profile e NEW)
          (d\<lparr>invitations :=
               map (\<lambda>i. if i_id i = i_id invitation_record
                         then i\<lparr>i_used_at := Some (now e)\<rparr> else i) (invitations d)\<rparr>))
       (\<lambda>d2.
          case i_org_id invitation_record of
            Some g \<Rightarrow>
              insert_organization_member
                \<lparr>m_id = gen_random_uuid e 0, m_org_id = g, m_user_id = au_id NEW,
                 m_role = i_role invitation_record, m_created_at = now e\<rparr> d2
          | None \<Rightarrow>
              if i_role invitation_record = Super_admin
              then (case select_public_org e d2 of
                      Some public_org_id \<Rightarrow>
                        insert_organization_member
                          \<lparr>m_id = gen_random_uuid e 0, m_org_id = public_org_id,
                           m_user_id = au_id NEW, m_role = Super_admin,
                           m_created_at = now e\<rparr> d2
                    | None \<Rightarrow>
                        and_then
                          (insert_organization
                             \<lparr>o_id = gen_random_uuid e 0, o_name = ''Public Organization'',
                              o_is_public = True, o_created_at = now e,
                              o_updated_at = now e\<rparr> d2)
                          (insert_organization_member
                             \<lparr>m_id = gen_random_uuid e 1, m_org_id = gen_random_uuid e 0,
                              m_user_id = au_id NEW, m_role = Super_admin,
                              m_created_at = now e\<rparr>))
              else Inr d2)"

text \<open>The \<^verbatim>\<open>ELSE\<close> branch: a regular signup (lines 152 to 168).\<close>

definition regular_signup :: "env \<Rightarrow> auth_user \<Rightarrow> db \<Rightarrow> error + db" where
  "regular_signup e NEW d =
     (let public_org_id = select_public_org e d
      in and_then (insert_profile (new_profile e NEW) d)
           (\<lambda>d1. case public_org_id of
                    Some g \<Rightarrow>
                      insert_organization_member
                        \<lparr>m_id = gen_random_uuid e 0, m_org_id = g, m_user_id = au_id NEW,
                         m_role = Viewer, m_created_at = now e\<rparr> d1
                  | None \<Rightarrow> Inr d1))"

text \<open>The trigger function. Inside the first branch the record is a row, which the inner
  \<open>case\<close> names. The trigger runs in the transaction of the signup: when it fails, the
  signup fails with it and nothing is kept.\<close>

definition handle_invitation_signup :: "env \<Rightarrow> auth_user \<Rightarrow> db \<Rightarrow> error + db" where
  "handle_invitation_signup e NEW d =
     (let invitation_record = select_invitation e NEW d
      in if invitation_record_is_not_null invitation_record
         then (case invitation_record of
                 Some i \<Rightarrow> invited_signup e NEW i d
               | None \<Rightarrow> regular_signup e NEW d)
         else regular_signup e NEW d)"

section \<open>The specification's words\<close>

text \<open>The lifecycle state \<open>pending\<close> of the specification: not consumed and not expired.\<close>

definition pending :: "env \<Rightarrow> invitation \<Rightarrow> bool" where
  "pending e i = (i_used_at i = None \<and> now e < i_expires_at i)"

text \<open>What the listing shows of an invitation: its id, e-mail, role, the name of its
  organization (\<^verbatim>\<open>'No Organization'\<close> when it has none), expiry and creation time.\<close>

definition pending_row :: "db \<Rightarrow> invitation \<Rightarrow> pending_invitation" where
  "pending_row d i =
     \<lparr>pi_id = i_id i, pi_email = i_email i, pi_role = i_role i,
      pi_org_name = (case find (\<lambda>g. i_org_id i = Some (o_id g)) (organizations d) of
                       None \<Rightarrow> ''No Organization'' | Some g \<Rightarrow> o_name g),
      pi_expires_at = i_expires_at i, pi_created_at = i_created_at i\<rparr>"

section \<open>A small store\<close>

text \<open>
  One public organization, one super-admin (user 1) and one ordinary member (user 2), with an
  expired and a consumed invitation; the clock stands at day 100.
\<close>

definition ex_public_org :: organization where
  "ex_public_org = \<lparr>o_id = 10, o_name = ''Public Organization'', o_is_public = True,
                     o_created_at = 0, o_updated_at = 0\<rparr>"

definition ex_root_member :: organization_member where
  "ex_root_member = \<lparr>m_id = 100, m_org_id = 10, m_user_id = 1, m_role = Super_admin,
                      m_created_at = days 1\<rparr>"

definition ex_guest_member :: organization_member where
  "ex_guest_member = \<lparr>m_id = 101, m_org_id = 10, m_user_id = 2, m_role = Viewer,
                       m_created_at = days 2\<rparr>"

definition ex_expired_invitation :: invitation where
  "ex_expired_invitation =
     \<lparr>i_id = 20, i_email = ''old@x.com'', i_token = ''t20'', i_role = Viewer,
      i_org_id = Some 10, i_invited_by = Some 1, i_expires_at = days 50, i_used_at = None,
      i_created_at = days 43\<rparr>"

definition ex_consumed_invitation :: invitation where
  "ex_consumed_invitation =
     \<lparr>i_id = 21, i_email = ''used@x.com'', i_token = ''t21'', i_role = Admin,
      i_org_id = Some 10, i_invited_by = Some 1, i_expires_at = days 102,
      i_used_at = Some (days 96), i_created_at = days 95\<rparr>"

definition ex_store :: db where
  "ex_store = \<lparr>organizations = [ex_public_org],
                organization_members = [ex_root_member, ex_guest_member],
                invitations = [ex_expired_invitation, ex_consumed_invitation],
                profiles = []\<rparr>"

definition ex_env :: env where
  "ex_env = \<lparr>now = days 100, auth_uid = Some 1, gen_random_uuid = (\<lambda>k. 500 + k),
              gen_random_bytes_schema = Some ''extensions'', random_token = ''t500'',
              scan_first = 0\<rparr>"

definition ex_guest_env :: env where
  "ex_guest_env = ex_env\<lparr>auth_uid := Some 2\<rparr>"

text \<open>
  A second organization and two pending invitations for the same address, created on day 97
  (viewer of the public organization) and on day 98 (admin of Acme).
\<close>

definition ex_acme_org :: organization where
  "ex_acme_org = \<lparr>o_id = 11, o_name = ''Acme'', o_is_public = False,
                   o_created_at = days 3, o_updated_at = days 3\<rparr>"

definition ex_pending_t1 :: invitation where
  "ex_pending_t1 =
     \<lparr>i_id = 30, i_email = ''dup@x.com'', i_token = ''t30'', i_role = Viewer,
      i_org_id = Some 10, i_invited_by = Some 1, i_expires_at = days 104, i_used_at = None,
      i_created_at = days 97\<rparr>"

definition ex_pending_t2 :: invitation where
  "ex_pending_t2 =
     \<lparr>i_id = 31, i_email = ''dup@x.com'', i_token = ''t31'', i_role = Admin,
      i_org_id = Some 11, i_invited_by = Some 1, i_expires_at = days 105, i_used_at = None,
      i_created_at = days 98\<rparr>"

definition ex_dup_store :: db where
  "ex_dup_store =
     ex_store\<lparr>organizations := [ex_public_org, ex_acme_org],
              invitations := [ex_expired_invitation, ex_consumed_invitation,
                              ex_pending_t1, ex_pending_t2]\<rparr>"

text \<open>The environment of the trigger (nobody is signed in yet) and three new users.\<close>

definition ex_signup_env :: env where
  "ex_signup_env = ex_env\<lparr>auth_uid := None\<rparr>"

definition ex_dup_user :: auth_user where
  "ex_dup_user = \<lparr>au_id = 3, au_email = ''dup@x.com'', au_display_name = None\<rparr>"

definition ex_used_user :: auth_user where
  "ex_used_user = \<lparr>au_id = 4, au_email = ''used@x.com'', au_display_name = Some ''Second''\<rparr>"

text \<open>The store right after the migrations: the public organization and the bootstrap
  invitation, no member yet.\<close>

definition ex_bootstrap_invitation :: invitation where
  "ex_bootstrap_invitation =
     \<lparr>i_id = 40, i_email = ''eduardo.ferro.aldama@gmail.com'',
      i_token = ''admin-bootstrap-token'', i_role = Super_admin, i_org_id = None,
      i_invited_by = None, i_expires_at = days 365, i_used_at = None, i_created_at = 0\<rparr>"

definition ex_initial_store :: db where
  "ex_initial_store = \<lparr>organizations = [ex_public_org], organization_members = [],
                        invitations = [ex_bootstrap_invitation], profiles = []\<rparr>"

definition ex_bootstrap_user :: auth_user where
  "ex_bootstrap_user = \<lparr>au_id = 1, au_email = ''eduardo.ferro.aldama@gmail.com'',
                         au_display_name = None\<rparr>"

text \<open>An invitation as the panel creates it: a role, no organization.\<close>

definition ex_panel_invitation :: invitation where
  "ex_panel_invitation =
     \<lparr>i_id = 50, i_email = ''ui@x.com'', i_token = ''t50'', i_role = Admin, i_org_id = None,
      i_invited_by = Some 1, i_expires_at = days 106, i_used_at = None, i_created_at = days 99\<rparr>"

definition ex_panel_store :: db where
  "ex_panel_store = ex_store\<lparr>invitations := [ex_panel_invitation]\<rparr>"

definition ex_panel_user :: auth_user where
  "ex_panel_user = \<lparr>au_id = 5, au_email = ''ui@x.com'', au_display_name = None\<rparr>"

text \<open>A store whose only organization is not public, with a consumed invitation to it.\<close>

definition ex_private_invitation :: invitation where
  "ex_private_invitation =
     \<lparr>i_id = 21, i_email = ''used@x.com'', i_token = ''t21'', i_role = Admin,
      i_org_id = Some 11, i_invited_by = None, i_expires_at = days 102,
      i_used_at = Some (days 96), i_created_at = days 95\<rparr>"

definition ex_private_store :: db where
  "ex_private_store = \<lparr>organizations = [ex_acme_org], organization_members = [],
                        invitations = [ex_private_invitation], profiles = []\<rparr>"

text \<open>An installation that has pgcrypto in \<^verbatim>\<open>pg_catalog\<close>, and one with two public
  organizations where the scan meets the second one first.\<close>

definition ex_catalog_env :: env where
  "ex_catalog_env = ex_env\<lparr>gen_random_bytes_schema := Some ''pg_catalog''\<rparr>"

definition ex_two_public_store :: db where
  "ex_two_public_store =
     \<lparr>organizations = [ex_public_org, ex_acme_org\<lparr>o_is_public := True\<rparr>],
      organization_members = [], invitations = [], profiles = []\<rparr>"

text \<open>A user who signs up with the address as it was typed into the invitation form.\<close>

definition ex_mixed_case_user :: auth_user where
  "ex_mixed_case_user = \<lparr>au_id = 6, au_email = ''New@X.com'', au_display_name = None\<rparr>"

section \<open>Facts about the inserts\<close>

lemmas ex_defs = ex_public_org_def ex_root_member_def ex_guest_member_def
  ex_expired_invitation_def ex_consumed_invitation_def ex_store_def ex_env_def ex_guest_env_def
  ex_acme_org_def ex_pending_t1_def ex_pending_t2_def ex_dup_store_def ex_signup_env_def
  ex_dup_user_def ex_used_user_def ex_bootstrap_invitation_def ex_initial_store_def
  ex_bootstrap_user_def ex_panel_invitation_def ex_panel_store_def ex_panel_user_def
  ex_private_store_def ex_mixed_case_user_def ex_private_invitation_def ex_catalog_env_def
  ex_two_public_store_def

lemma insert_organization_Inr:
  "insert_organization r d = Inr d' \<longleftrightarrow>
     o_id r \<notin> set (map o_id (organizations d)) \<and> d' = d\<lparr>organizations := organizations d @ [r]\<rparr>"
  unfolding insert_organization_def by (cases "o_id r \<in> set (map o_id (organizations d))") auto

lemma insert_organization_member_Inr:
  "insert_organization_member r d = Inr d' \<longleftrightarrow>
     m_id r \<notin> set (map m_id (organization_members d)) \<and>
     \<not> list_ex (\<lambda>m. m_org_id m = m_org_id r \<and> m_user_id m = m_user_id r) (organization_members d) \<and>
     m_org_id r \<in> set (map o_id (organizations d)) \<and>
     d' = d\<lparr>organization_members := organization_members d @ [r]\<rparr>"
  unfolding insert_organization_member_def
  by (cases "m_id r \<in> set (map m_id (organization_members d))";
      cases "list_ex (\<lambda>m. m_org_id m = m_org_id r \<and> m_user_id m = m_user_id r) (organization_members d)";
      cases "m_org_id r \<in> set (map o_id (organizations d))") auto

lemma insert_profile_Inr:
  "insert_profile r d = Inr d' \<longleftrightarrow>
     pr_id r \<notin> set (map pr_id (profiles d)) \<and> d' = d\<lparr>profiles := profiles d @ [r]\<rparr>"
  unfolding insert_profile_def by (cases "pr_id r \<in> set (map pr_id (profiles d))") auto

lemma insert_invitation_Inr:
  "insert_invitation r d = Inr d' \<longleftrightarrow>
     i_id r \<notin> set (map i_id (invitations d)) \<and>
     i_token r \<notin> set (map i_token (invitations d)) \<and>
     (\<forall>g. i_org_id r = Some g \<longrightarrow> g \<in> set (map o_id (organizations d))) \<and>
     d' = d\<lparr>invitations := invitations d @ [r]\<rparr>"
  unfolding insert_invitation_def
  by (cases "i_id r \<in> set (map i_id (invitations d))";
      cases "i_token r \<in> set (map i_token (invitations d))";
      cases "i_org_id r") auto

lemma and_then_Inr:
  "and_then r f = Inr y \<longleftrightarrow> (\<exists>x. r = Inr x \<and> f x = Inr y)"
  unfolding and_then_def by (cases r) auto

lemma map_unchanged: "(\<And>x. x \<in> set xs \<Longrightarrow> f x = x) \<Longrightarrow> map f xs = xs"
  by (induction xs) auto

section \<open>Denial before mutation\<close>

text \<open>
  C2. A caller who is not a super-admin gets the permission exception of each of
  \<^verbatim>\<open>create_organization_as_super_admin\<close>, \<^verbatim>\<open>create_user_invitation\<close>,
  \<^verbatim>\<open>revoke_invitation\<close> and \<^verbatim>\<open>promote_user_to_owner\<close>, and the store after the
  call is the store before it: the check comes first in each function and nothing is written
  before it.
\<close>

theorem non_super_admin_denied:
  assumes "\<not> is_super_admin d e (auth_uid e)"
  shows "rpc (create_organization_as_super_admin e p_name p_is_public) d =
           (Inl (Exception ''Only super admin can create organizations directly''), d) \<and>
         rpc (create_user_invitation e p_email p_role p_org_id) d =
           (Inl (Exception ''Only super admin can create invitations''), d) \<and>
         rpc (revoke_invitation e invitation_id) d =
           (Inl (Exception ''Only super admin can revoke invitations''), d) \<and>
         rpc (promote_user_to_owner e p_user_id org_id) d =
           (Inl (Exception ''Only super admin can promote users''), d)"
  using assms
  by (simp add: rpc_def create_organization_as_super_admin_def
      create_user_invitation_def revoke_invitation_def promote_user_to_owner_def)

theorem non_super_admin_denied_witness:
  "\<not> is_super_admin ex_store ex_guest_env (auth_uid ex_guest_env) \<and>
   rpc (create_organization_as_super_admin ex_guest_env ''Acme'' False) ex_store =
     (Inl (Exception ''Only super admin can create organizations directly''), ex_store) \<and>
   rpc (create_user_invitation ex_guest_env ''new@x.com'' Admin (Some 10)) ex_store =
     (Inl (Exception ''Only super admin can create invitations''), ex_store) \<and>
   rpc (revoke_invitation ex_guest_env 20) ex_store =
     (Inl (Exception ''Only super admin can revoke invitations''), ex_store) \<and>
   rpc (promote_user_to_owner ex_guest_env 2 10) ex_store =
     (Inl (Exception ''Only super admin can promote users''), ex_store)"
proof -
  have guest: "\<not> is_super_admin ex_store ex_guest_env (auth_uid ex_guest_env)"
    by (simp add: is_super_admin_def ex_defs)
  show ?thesis
    using guest non_super_admin_denied [OF guest, of "''Acme''" False "''new@x.com''" Admin
        "Some 10" 20 2 10]
    by simp
qed

section \<open>Revocation\<close>

text \<open>
  C1 (as amended). \<^verbatim>\<open>revoke_invitation\<close> does not look at the state of the invitation:
  for a super-admin caller, every invitation with the given id, be it pending, expired or
  consumed, gets \<^verbatim>\<open>expires_at = now() - 1 day\<close> and the call returns true; its other
  columns and all other rows stay. The call returns false, with the store unchanged, exactly
  when no invitation has the id.
\<close>

theorem revoke_invitation_backdates:
  assumes sa: "is_super_admin d e (auth_uid e)"
  shows "(\<forall>i \<in> set (invitations d). i_id i = invitation_id \<longrightarrow>
            (\<exists>d'. revoke_invitation e invitation_id d = Inr (True, d') \<and>
               i\<lparr>i_expires_at := now e - days 1\<rparr> \<in> set (invitations d') \<and>
               invitations d' =
                 map (\<lambda>j. if i_id j = invitation_id
                           then j\<lparr>i_expires_at := now e - days 1\<rparr> else j) (invitations d) \<and>
               organizations d' = organizations d \<and>
               organization_members d' = organization_members d \<and>
               profiles d' = profiles d)) \<and>
         (invitation_id \<notin> set (map i_id (invitations d)) \<longrightarrow>
            revoke_invitation e invitation_id d = Inr (False, d))"
proof (rule conjI)
  show "\<forall>i \<in> set (invitations d). i_id i = invitation_id \<longrightarrow>
            (\<exists>d'. revoke_invitation e invitation_id d = Inr (True, d') \<and>
               i\<lparr>i_expires_at := now e - days 1\<rparr> \<in> set (invitations d') \<and>
               invitations d' =
                 map (\<lambda>j. if i_id j = invitation_id
                           then j\<lparr>i_expires_at := now e - days 1\<rparr> else j) (invitations d) \<and>
               organizations d' = organizations d \<and>
               organization_members d' = organization_members d \<and>
               profiles d' = profiles d)"
    using sa by (auto simp add: revoke_invitation_def list_ex_iff image_iff)
next
  show "invitation_id \<notin> set (map i_id (invitations d)) \<longrightarrow>
           revoke_invitation e invitation_id d = Inr (False, d)"
  proof
    assume absent: "invitation_id \<notin> set (map i_id (invitations d))"
    then have same: "map (\<lambda>j. if i_id j = invitation_id
                           then j\<lparr>i_expires_at := now e - days 1\<rparr> else j) (invitations d)
                = invitations d"
      by (intro map_unchanged) auto
    from absent have nf: "\<not> list_ex (\<lambda>i. i_id i = invitation_id) (invitations d)"
      by (auto simp: list_ex_iff)
    show "revoke_invitation e invitation_id d = Inr (False, d)"
      using sa nf by (simp add: revoke_invitation_def same)
  qed
qed

lemma ex_root_is_super_admin: "is_super_admin ex_store ex_env (auth_uid ex_env)"
  by (simp add: is_super_admin_def ex_defs)

theorem revoke_invitation_backdates_witness:
  "is_super_admin ex_store ex_env (auth_uid ex_env) \<and>
   ex_consumed_invitation \<in> set (invitations ex_store) \<and>
   i_used_at ex_consumed_invitation = Some (days 96) \<and>
   (\<exists>d'. revoke_invitation ex_env 21 ex_store = Inr (True, d') \<and>
      ex_consumed_invitation\<lparr>i_expires_at := days 99\<rparr> \<in> set (invitations d')) \<and>
   revoke_invitation ex_env 22 ex_store = Inr (False, ex_store)"
proof -
  have a: "ex_consumed_invitation \<in> set (invitations ex_store)" "i_id ex_consumed_invitation = 21"
    "i_used_at ex_consumed_invitation = Some (days 96)"
    by (simp_all add: ex_defs)
  have b: "22 \<notin> set (map i_id (invitations ex_store))"
    by (simp add: ex_defs)
  have c: "now ex_env - days 1 = days 99"
    by (simp add: ex_defs days_def)
  from revoke_invitation_backdates [OF ex_root_is_super_admin, of 21] a
  obtain d' where "revoke_invitation ex_env 21 ex_store = Inr (True, d')"
    "ex_consumed_invitation\<lparr>i_expires_at := now ex_env - days 1\<rparr> \<in> set (invitations d')"
    by blast
  then show ?thesis
    using a b ex_root_is_super_admin revoke_invitation_backdates [OF ex_root_is_super_admin, of 22]
    unfolding c by blast
qed

text \<open>The claim as the specification has it fails on the expired invitation of the example:
  the call returns true and moves \<^verbatim>\<open>expires_at\<close> from day 50 to day 99.\<close>

theorem revoke_expired_counterexample:
  "is_super_admin ex_store ex_env (auth_uid ex_env) \<and>
   ex_expired_invitation \<in> set (invitations ex_store) \<and>
   i_expires_at ex_expired_invitation \<le> now ex_env \<and>
   rpc (revoke_invitation ex_env (i_id ex_expired_invitation)) ex_store =
     (Inr True,
      ex_store\<lparr>invitations :=
        [ex_expired_invitation\<lparr>i_expires_at := days 99\<rparr>, ex_consumed_invitation]\<rparr>) \<and>
   ex_store\<lparr>invitations :=
        [ex_expired_invitation\<lparr>i_expires_at := days 99\<rparr>, ex_consumed_invitation]\<rparr> \<noteq> ex_store"
  by (simp add: rpc_def revoke_invitation_def is_super_admin_def ex_defs days_def)

section \<open>Promotion to owner\<close>

text \<open>
  C8. For a super-admin caller and an existing membership row of user \<open>u\<close> in organization
  \<open>g\<close>, whatever its role, \<^verbatim>\<open>promote_user_to_owner\<close> returns true and the row's role
  becomes \<^verbatim>\<open>owner\<close>; no other table changes. A \<^verbatim>\<open>super_admin\<close> role is not kept: when
  the user's only \<^verbatim>\<open>super_admin\<close> rows are in \<open>g\<close>, the user is no super-admin afterwards.
\<close>

theorem promote_user_to_owner_overwrites:
  assumes sa: "is_super_admin d e (auth_uid e)"
    and row: "m \<in> set (organization_members d)"
    and key: "m_user_id m = u" "m_org_id m = g"
  shows "\<exists>d'. promote_user_to_owner e u g d = Inr (True, d') \<and>
           organization_members d' =
             map (\<lambda>m'. if m_user_id m' = u \<and> m_org_id m' = g then m'\<lparr>m_role := Owner\<rparr> else m')
               (organization_members d) \<and>
           m\<lparr>m_role := Owner\<rparr> \<in> set (organization_members d') \<and>
           (\<forall>m' \<in> set (organization_members d').
              m_user_id m' = u \<and> m_org_id m' = g \<longrightarrow> m_role m' = Owner) \<and>
           get_user_org_role d' u g = Some Owner \<and>
           organizations d' = organizations d \<and> invitations d' = invitations d \<and>
           profiles d' = profiles d \<and>
           ((\<forall>m' \<in> set (organization_members d).
               m_user_id m' = u \<and> m_role m' = Super_admin \<longrightarrow> m_org_id m' = g) \<longrightarrow>
            \<not> is_super_admin d' e (Some u))"
proof -
  let ?f = "\<lambda>m'. if m_user_id m' = u \<and> m_org_id m' = g then m'\<lparr>m_role := Owner\<rparr> else m'"
  let ?d' = "d\<lparr>organization_members := map ?f (organization_members d)\<rparr>"
  have found: "list_ex (\<lambda>m. m_user_id m = u \<and> m_org_id m = g) (organization_members d)"
    using row key by (auto simp: list_ex_iff)
  have res: "promote_user_to_owner e u g d = Inr (True, ?d')"
    using sa found by (simp add: promote_user_to_owner_def)
  have mem: "m\<lparr>m_role := Owner\<rparr> \<in> set (organization_members ?d')"
    using row key by (auto simp: image_iff intro!: bexI[of _ m])
  have all_owner: "\<forall>m' \<in> set (organization_members ?d').
              m_user_id m' = u \<and> m_org_id m' = g \<longrightarrow> m_role m' = Owner"
  proof
    fix m' assume "m' \<in> set (organization_members ?d')"
    then obtain x where x: "x \<in> set (organization_members d)" "m' = ?f x"
      by auto
    show "m_user_id m' = u \<and> m_org_id m' = g \<longrightarrow> m_role m' = Owner"
      by (cases "m_user_id x = u \<and> m_org_id x = g") (auto simp: x(2))
  qed
  have "filter (\<lambda>m. m_user_id m = u \<and> m_org_id m = g) (organization_members ?d') \<noteq> []"
    using mem key unfolding filter_empty_conv by (intro notI) (drule bspec[OF _ mem], simp)
  then obtain x xs where fx: "filter (\<lambda>m. m_user_id m = u \<and> m_org_id m = g)
      (organization_members ?d') = x # xs"
    by (cases "filter (\<lambda>m. m_user_id m = u \<and> m_org_id m = g) (organization_members ?d')") auto
  then have "x \<in> set (filter (\<lambda>m. m_user_id m = u \<and> m_org_id m = g) (organization_members ?d'))"
    by simp
  then have "x \<in> set (organization_members ?d') \<and> m_user_id x = u \<and> m_org_id x = g"
    unfolding set_filter by blast
  then have "m_role x = Owner" using all_owner by blast
  then have role: "get_user_org_role ?d' u g = Some Owner"
    unfolding get_user_org_role_def fx by simp
  have demote: "(\<forall>m' \<in> set (organization_members d).
               m_user_id m' = u \<and> m_role m' = Super_admin \<longrightarrow> m_org_id m' = g) \<longrightarrow>
            \<not> is_super_admin ?d' e (Some u)"
  proof
    assume only: "\<forall>m' \<in> set (organization_members d).
               m_user_id m' = u \<and> m_role m' = Super_admin \<longrightarrow> m_org_id m' = g"
    have "\<not> (m_user_id m' = u \<and> m_role m' = Super_admin)"
      if "m' \<in> set (organization_members ?d')" for m'
    proof -
      from that obtain x where x: "x \<in> set (organization_members d)" "m' = ?f x"
        by auto
      show ?thesis
        using only x(1) by (cases "m_user_id x = u \<and> m_org_id x = g") (auto simp: x(2))
    qed
    then show "\<not> is_super_admin ?d' e (Some u)"
      unfolding is_super_admin_def list_ex_iff by auto
  qed
  show ?thesis
  proof (intro exI[of _ ?d'] conjI)
    show "promote_user_to_owner e u g d = Inr (True, ?d')" by (rule res)
    show "m\<lparr>m_role := Owner\<rparr> \<in> set (organization_members ?d')" by (rule mem)
    show "get_user_org_role ?d' u g = Some Owner" by (rule role)
    show "\<forall>m' \<in> set (organization_members ?d').
              m_user_id m' = u \<and> m_org_id m' = g \<longrightarrow> m_role m' = Owner" by (rule all_owner)
    show "(\<forall>m' \<in> set (organization_members d).
               m_user_id m' = u \<and> m_role m' = Super_admin \<longrightarrow> m_org_id m' = g) \<longrightarrow>
            \<not> is_super_admin ?d' e (Some u)" by (rule demote)
  qed simp_all
qed

text \<open>In the example the only super-admin promotes their own row in the public organization
  and is an owner, not a super-admin, afterwards.\<close>

theorem promote_user_to_owner_overwrites_witness:
  "is_super_admin ex_store ex_env (auth_uid ex_env) \<and>
   ex_root_member \<in> set (organization_members ex_store) \<and>
   m_role ex_root_member = Super_admin \<and>
   (\<exists>d'. promote_user_to_owner ex_env 1 10 ex_store = Inr (True, d') \<and>
      ex_root_member\<lparr>m_role := Owner\<rparr> \<in> set (organization_members d') \<and>
      get_user_org_role d' 1 10 = Some Owner \<and>
      \<not> is_super_admin d' ex_env (Some 1))"
proof -
  have a: "ex_root_member \<in> set (organization_members ex_store)"
    "m_user_id ex_root_member = 1" "m_org_id ex_root_member = 10"
    "m_role ex_root_member = Super_admin"
    by (simp_all add: ex_defs)
  have only: "\<forall>m' \<in> set (organization_members ex_store).
               m_user_id m' = 1 \<and> m_role m' = Super_admin \<longrightarrow> m_org_id m' = 10"
    by (simp add: ex_defs)
  from promote_user_to_owner_overwrites [OF ex_root_is_super_admin a(1) a(2) a(3)] only
  have "\<exists>d'. promote_user_to_owner ex_env 1 10 ex_store = Inr (True, d') \<and>
      ex_root_member\<lparr>m_role := Owner\<rparr> \<in> set (organization_members d') \<and>
      get_user_org_role d' 1 10 = Some Owner \<and>
      \<not> is_super_admin d' ex_env (Some 1)"
    by blast
  then show ?thesis
    using a ex_root_is_super_admin by blast
qed

section \<open>Creating an organization\<close>

lemma create_organization_unfold:
  assumes sa: "is_super_admin d e (auth_uid e)" and c: "auth_uid e = Some caller"
  shows "create_organization_as_super_admin e p_name p_is_public d = Inr (org_id, d') \<longleftrightarrow>
     org_id = gen_random_uuid e 0 \<and>
     (\<exists>d1. insert_organization
              \<lparr>o_id = gen_random_uuid e 0, o_name = p_name, o_is_public = p_is_public,
               o_created_at = now e, o_updated_at = now e\<rparr> d = Inr d1 \<and>
           insert_organization_member
              \<lparr>m_id = gen_random_uuid e 1, m_org_id = gen_random_uuid e 0,
               m_user_id = caller, m_role = Owner, m_created_at = now e\<rparr> d1 = Inr d')"
  using sa c unfolding create_organization_as_super_admin_def Let_def
  by (auto split: sum.splits)

text \<open>
  C7. For a super-admin caller, a call of \<^verbatim>\<open>create_organization_as_super_admin\<close> that
  returns has appended one organization row with the given name and flag and one membership
  row binding the caller to it as \<^verbatim>\<open>owner\<close>, so that the caller's role there is
  \<^verbatim>\<open>owner\<close>; a call that fails leaves the store as it was, so there is never one row
  without the other; and the call does return when the generated identifiers are new.
\<close>

theorem create_organization_owner:
  assumes sa: "is_super_admin d e (auth_uid e)"
  shows "(\<forall>org_id d'. create_organization_as_super_admin e p_name p_is_public d = Inr (org_id, d') \<longrightarrow>
           (\<exists>caller. auth_uid e = Some caller \<and>
              organizations d' = organizations d @
                [\<lparr>o_id = org_id, o_name = p_name, o_is_public = p_is_public,
                  o_created_at = now e, o_updated_at = now e\<rparr>] \<and>
              organization_members d' = organization_members d @
                [\<lparr>m_id = gen_random_uuid e 1, m_org_id = org_id, m_user_id = caller,
                  m_role = Owner, m_created_at = now e\<rparr>] \<and>
              get_user_org_role d' caller org_id = Some Owner \<and>
              invitations d' = invitations d \<and> profiles d' = profiles d)) \<and>
         (\<forall>err. create_organization_as_super_admin e p_name p_is_public d = Inl err \<longrightarrow>
           rpc (create_organization_as_super_admin e p_name p_is_public) d = (Inl err, d)) \<and>
         (gen_random_uuid e 0 \<notin> set (map o_id (organizations d)) \<and>
          gen_random_uuid e 0 \<notin> set (map m_org_id (organization_members d)) \<and>
          gen_random_uuid e 1 \<notin> set (map m_id (organization_members d)) \<longrightarrow>
           (\<exists>org_id d'. create_organization_as_super_admin e p_name p_is_public d = Inr (org_id, d')))"
proof (intro conjI)
  from sa obtain caller where c: "auth_uid e = Some caller"
    by (auto simp: is_super_admin_def split: option.splits)
  let ?g = "\<lparr>o_id = gen_random_uuid e 0, o_name = p_name, o_is_public = p_is_public,
               o_created_at = now e, o_updated_at = now e\<rparr>"
  let ?m = "\<lparr>m_id = gen_random_uuid e 1, m_org_id = gen_random_uuid e 0,
               m_user_id = caller, m_role = Owner, m_created_at = now e\<rparr>"
  let ?d1 = "d\<lparr>organizations := organizations d @ [?g]\<rparr>"
  let ?d2 = "?d1\<lparr>organization_members := organization_members d @ [?m]\<rparr>"
  show "\<forall>org_id d'. create_organization_as_super_admin e p_name p_is_public d = Inr (org_id, d') \<longrightarrow>
           (\<exists>caller. auth_uid e = Some caller \<and>
              organizations d' = organizations d @
                [\<lparr>o_id = org_id, o_name = p_name, o_is_public = p_is_public,
                  o_created_at = now e, o_updated_at = now e\<rparr>] \<and>
              organization_members d' = organization_members d @
                [\<lparr>m_id = gen_random_uuid e 1, m_org_id = org_id, m_user_id = caller,
                  m_role = Owner, m_created_at = now e\<rparr>] \<and>
              get_user_org_role d' caller org_id = Some Owner \<and>
              invitations d' = invitations d \<and> profiles d' = profiles d)"
  proof (intro allI impI)
    fix org_id d'
    assume ok: "create_organization_as_super_admin e p_name p_is_public d = Inr (org_id, d')"
    from ok have oid: "org_id = gen_random_uuid e 0"
      and d': "d' = ?d2"
      and uniq: "\<not> list_ex (\<lambda>m. m_org_id m = gen_random_uuid e 0 \<and> m_user_id m = caller)
                    (organization_members d)"
      unfolding create_organization_unfold[OF sa c] insert_organization_Inr
        insert_organization_member_Inr by auto
    from uniq have "filter (\<lambda>m. m_user_id m = caller \<and> m_org_id m = gen_random_uuid e 0)
                      (organization_members d) = []"
      unfolding list_ex_iff filter_empty_conv by blast
    then have role: "get_user_org_role ?d2 caller (gen_random_uuid e 0) = Some Owner"
      unfolding get_user_org_role_def by simp
    show "\<exists>caller. auth_uid e = Some caller \<and>
              organizations d' = organizations d @
                [\<lparr>o_id = org_id, o_name = p_name, o_is_public = p_is_public,
                  o_created_at = now e, o_updated_at = now e\<rparr>] \<and>
              organization_members d' = organization_members d @
                [\<lparr>m_id = gen_random_uuid e 1, m_org_id = org_id, m_user_id = caller,
                  m_role = Owner, m_created_at = now e\<rparr>] \<and>
              get_user_org_role d' caller org_id = Some Owner \<and>
              invitations d' = invitations d \<and> profiles d' = profiles d"
      unfolding oid d'
    proof (intro exI[of _ caller] conjI)
      show "get_user_org_role ?d2 caller (gen_random_uuid e 0) = Some Owner" by (rule role)
    qed (simp_all add: c)
  qed
  show "\<forall>err. create_organization_as_super_admin e p_name p_is_public d = Inl err \<longrightarrow>
           rpc (create_organization_as_super_admin e p_name p_is_public) d = (Inl err, d)"
    by (simp add: rpc_def)
  show "gen_random_uuid e 0 \<notin> set (map o_id (organizations d)) \<and>
         gen_random_uuid e 0 \<notin> set (map m_org_id (organization_members d)) \<and>
         gen_random_uuid e 1 \<notin> set (map m_id (organization_members d)) \<longrightarrow>
           (\<exists>org_id d'. create_organization_as_super_admin e p_name p_is_public d = Inr (org_id, d'))"
  proof
    assume fresh: "gen_random_uuid e 0 \<notin> set (map o_id (organizations d)) \<and>
         gen_random_uuid e 0 \<notin> set (map m_org_id (organization_members d)) \<and>
         gen_random_uuid e 1 \<notin> set (map m_id (organization_members d))"
    then have nodup: "\<not> list_ex (\<lambda>m. m_org_id m = gen_random_uuid e 0 \<and> m_user_id m = caller)
                    (organization_members d)"
      unfolding list_ex_iff set_map by (metis imageI)
    have "create_organization_as_super_admin e p_name p_is_public d = Inr (gen_random_uuid e 0, ?d2)"
      unfolding create_organization_unfold[OF sa c] insert_organization_Inr
        insert_organization_member_Inr
      using fresh nodup by simp
    then show "\<exists>org_id d'. create_organization_as_super_admin e p_name p_is_public d = Inr (org_id, d')"
      by blast
  qed
qed

theorem create_organization_owner_witness:
  "is_super_admin ex_store ex_env (auth_uid ex_env) \<and>
   (\<exists>d'. create_organization_as_super_admin ex_env ''Acme'' False ex_store = Inr (500, d') \<and>
      organizations d' =
        [ex_public_org,
         \<lparr>o_id = 500, o_name = ''Acme'', o_is_public = False,
          o_created_at = days 100, o_updated_at = days 100\<rparr>] \<and>
      organization_members d' =
        [ex_root_member, ex_guest_member,
         \<lparr>m_id = 501, m_org_id = 500, m_user_id = 1, m_role = Owner, m_created_at = days 100\<rparr>] \<and>
      get_user_org_role d' 1 500 = Some Owner)"
proof -
  have fresh: "gen_random_uuid ex_env 0 \<notin> set (map o_id (organizations ex_store)) \<and>
          gen_random_uuid ex_env 0 \<notin> set (map m_org_id (organization_members ex_store)) \<and>
          gen_random_uuid ex_env 1 \<notin> set (map m_id (organization_members ex_store))"
    by (simp add: ex_defs)
  note t = create_organization_owner [OF ex_root_is_super_admin, of "''Acme''" False]
  from t fresh obtain org_id d' where
    r: "create_organization_as_super_admin ex_env ''Acme'' False ex_store = Inr (org_id, d')"
    by blast
  from t r obtain caller where p: "auth_uid ex_env = Some caller"
      "organizations d' = organizations ex_store @
                [\<lparr>o_id = org_id, o_name = ''Acme'', o_is_public = False,
                  o_created_at = now ex_env, o_updated_at = now ex_env\<rparr>]"
      "organization_members d' = organization_members ex_store @
                [\<lparr>m_id = gen_random_uuid ex_env 1, m_org_id = org_id, m_user_id = caller,
                  m_role = Owner, m_created_at = now ex_env\<rparr>]"
      "get_user_org_role d' caller org_id = Some Owner"
    by blast
  have oid: "org_id = 500"
    using r
    by (simp add: create_organization_as_super_admin_def insert_organization_def
        insert_organization_member_def is_super_admin_def ex_defs)
  have cl: "caller = 1"
    using p(1) by (simp add: ex_env_def)
  have "organizations d' =
        [ex_public_org,
         \<lparr>o_id = 500, o_name = ''Acme'', o_is_public = False,
          o_created_at = days 100, o_updated_at = days 100\<rparr>]"
    using p(2) unfolding oid by (simp add: ex_store_def ex_env_def)
  moreover have "organization_members d' =
        [ex_root_member, ex_guest_member,
         \<lparr>m_id = 501, m_org_id = 500, m_user_id = 1, m_role = Owner, m_created_at = days 100\<rparr>]"
    using p(3) unfolding oid cl by (simp add: ex_store_def ex_env_def)
  moreover have "get_user_org_role d' 1 500 = Some Owner"
    using p(4) unfolding oid cl .
  ultimately show ?thesis
    using r ex_root_is_super_admin unfolding oid by blast
qed

section \<open>Listing the pending invitations\<close>

lemma filter_key_distinct:
  "distinct (map f xs) \<Longrightarrow>
   filter (\<lambda>x. a = Some (f x)) xs =
     (case find (\<lambda>x. a = Some (f x)) xs of None \<Rightarrow> [] | Some x \<Rightarrow> [x])"
proof (induction xs)
  case Nil
  then show ?case by simp
next
  case (Cons x xs)
  show ?case
  proof (cases "a = Some (f x)")
    case True
    with Cons.prems have "\<forall>y \<in> set xs. a \<noteq> Some (f y)" by auto
    then have "filter (\<lambda>x. a = Some (f x)) xs = []"
      unfolding filter_empty_conv by blast
    with True show ?thesis by simp
  next
    case False
    with Cons show ?thesis by simp
  qed
qed

lemma left_join_organizations_pk:
  assumes pk: "distinct (map o_id (organizations d))"
  shows "left_join_organizations d i =
           [(i, find (\<lambda>g. i_org_id i = Some (o_id g)) (organizations d))]"
  unfolding left_join_organizations_def filter_key_distinct [OF pk]
  by (cases "find (\<lambda>g. i_org_id i = Some (o_id g)) (organizations d)") simp_all

lemma concat_map_singleton: "concat (map (\<lambda>x. [f x]) xs) = map f xs"
  by (induction xs) simp_all

lemma get_pending_invitations_pk:
  assumes sa: "is_super_admin d e (auth_uid e)"
    and pk: "distinct (map o_id (organizations d))"
  shows "get_pending_invitations e d =
           map (\<lambda>(i, g). pending_row d i)
             (sort_key (\<lambda>(i, g). - i_created_at i)
               (map (\<lambda>i. (i, find (\<lambda>g. i_org_id i = Some (o_id g)) (organizations d)))
                  (filter (pending e) (invitations d))))"
proof -
  let ?look = "\<lambda>i. find (\<lambda>g. i_org_id i = Some (o_id g)) (organizations d)"
  let ?pair = "\<lambda>i. (i, ?look i)"
  let ?S = "sort_key (\<lambda>(i, g). - i_created_at i) (map ?pair (filter (pending e) (invitations d)))"
  have j: "concat (map (left_join_organizations d) (invitations d)) = map ?pair (invitations d)"
    unfolding left_join_organizations_pk [OF pk] by (rule concat_map_singleton)
  have f: "filter (\<lambda>(i, g). is_super_admin d e (auth_uid e) \<and> i_used_at i = None \<and>
                              now e < i_expires_at i) (map ?pair (invitations d))
           = map ?pair (filter (pending e) (invitations d))"
  proof -
    have p: "(\<lambda>x. i_used_at x = None \<and> now e < i_expires_at x) = pending e"
      by (rule ext) (simp add: pending_def)
    show ?thesis
      using sa by (simp add: filter_map comp_def p)
  qed
  have row: "(case p of (i, g) \<Rightarrow>
                \<lparr>pi_id = i_id i, pi_email = i_email i, pi_role = i_role i,
                 pi_org_name = (case g of None \<Rightarrow> ''No Organization'' | Some g' \<Rightarrow> o_name g'),
                 pi_expires_at = i_expires_at i, pi_created_at = i_created_at i\<rparr>)
             = (case p of (i, g) \<Rightarrow> pending_row d i)"
    if "p \<in> set ?S" for p
  proof -
    from that obtain i where "p = ?pair i" by auto
    then show ?thesis by (simp add: pending_row_def)
  qed
  show ?thesis
    unfolding get_pending_invitations_def j f
    by (rule map_cong [OF refl]) (rule row)
qed

text \<open>
  C6. For a super-admin caller (the organization ids being distinct, as the primary key
  has it), \<^verbatim>\<open>get_pending_invitations\<close> returns one row for each invitation with
  \<^verbatim>\<open>used_at\<close> null and \<^verbatim>\<open>expires_at\<close> after now and no other row, the rows are in
  descending order of \<^verbatim>\<open>created_at\<close>, and every row returned expires strictly after now.
\<close>

theorem get_pending_invitations_exact:
  assumes sa: "is_super_admin d e (auth_uid e)"
    and pk: "distinct (map o_id (organizations d))"
    and pki: "distinct (map i_id (invitations d))"
  shows "mset (get_pending_invitations e d) =
           mset (map (pending_row d) (filter (pending e) (invitations d))) \<and>
         sorted_wrt (\<lambda>a b. pi_created_at b \<le> pi_created_at a) (get_pending_invitations e d) \<and>
         (\<forall>r \<in> set (get_pending_invitations e d). now e < pi_expires_at r) \<and>
         (\<forall>i \<in> set (invitations d).
            i_expires_at i \<le> now e \<longrightarrow> i_id i \<notin> set (map pi_id (get_pending_invitations e d)))"
proof -
  let ?look = "\<lambda>i. find (\<lambda>g. i_org_id i = Some (o_id g)) (organizations d)"
  let ?pair = "\<lambda>i. (i, ?look i)"
  let ?P = "filter (pending e) (invitations d)"
  let ?S = "sort_key (\<lambda>(i, g). - i_created_at i) (map ?pair ?P)"
  note eq = get_pending_invitations_pk [OF sa pk]
  have "mset (get_pending_invitations e d) = image_mset (\<lambda>(i, g). pending_row d i) (mset (map ?pair ?P))"
    unfolding eq by simp
  also have "\<dots> = mset (map (pending_row d) ?P)"
    by (simp add: multiset.map_comp comp_def)
  finally have m: "mset (get_pending_invitations e d) = mset (map (pending_row d) ?P)" .
  have "sorted (map (\<lambda>(i, g). - i_created_at i) ?S)"
    by (rule sorted_sort_key)
  moreover have "map (\<lambda>(i, g). - i_created_at i) ?S =
                 map (\<lambda>r. - pi_created_at r) (get_pending_invitations e d)"
    unfolding eq by (simp add: comp_def case_prod_unfold pending_row_def)
  ultimately have "sorted (map (\<lambda>r. - pi_created_at r) (get_pending_invitations e d))"
    by simp
  then have s: "sorted_wrt (\<lambda>a b. pi_created_at b \<le> pi_created_at a) (get_pending_invitations e d)"
    by (simp add: sorted_map)
  have set_eq: "set (get_pending_invitations e d) = pending_row d ` {i \<in> set (invitations d). pending e i}"
  proof -
    have "set (get_pending_invitations e d) = set_mset (mset (get_pending_invitations e d))"
      by simp
    also have "\<dots> = set (map (pending_row d) ?P)"
      unfolding m by simp
    also have "\<dots> = pending_row d ` {i \<in> set (invitations d). pending e i}"
      by simp
    finally show ?thesis .
  qed
  have x: "\<forall>r \<in> set (get_pending_invitations e d). now e < pi_expires_at r"
  proof
    fix r assume "r \<in> set (get_pending_invitations e d)"
    then obtain i where "pending e i" "r = pending_row d i"
      unfolding set_eq by blast
    then show "now e < pi_expires_at r"
      by (simp add: pending_def pending_row_def)
  qed
  have y: "\<forall>i \<in> set (invitations d).
            i_expires_at i \<le> now e \<longrightarrow> i_id i \<notin> set (map pi_id (get_pending_invitations e d))"
  proof (intro ballI impI notI)
    fix i assume i: "i \<in> set (invitations d)" "i_expires_at i \<le> now e"
      and "i_id i \<in> set (map pi_id (get_pending_invitations e d))"
    then obtain r where "r \<in> set (get_pending_invitations e d)" "pi_id r = i_id i"
      by auto
    then obtain j where j: "j \<in> set (invitations d)" "pending e j" "i_id j = i_id i"
      unfolding set_eq by (auto simp: pending_row_def)
    from pki have "inj_on i_id (set (invitations d))"
      by (simp add: distinct_map)
    with i(1) j(1) j(3) have "j = i"
      by (rule_tac inj_onD)
    with j(2) i(2) show False
      by (simp add: pending_def)
  qed
  show ?thesis
    by (intro conjI) (rule m, rule s, rule x, rule y)
qed


theorem get_pending_invitations_exact_witness:
  "is_super_admin ex_dup_store ex_env (auth_uid ex_env) \<and>
   distinct (map o_id (organizations ex_dup_store)) \<and>
   distinct (map i_id (invitations ex_dup_store)) \<and>
   mset (get_pending_invitations ex_env ex_dup_store) =
     mset [pending_row ex_dup_store ex_pending_t1, pending_row ex_dup_store ex_pending_t2] \<and>
   sorted_wrt (\<lambda>a b. pi_created_at b \<le> pi_created_at a)
     (get_pending_invitations ex_env ex_dup_store) \<and>
   i_id ex_expired_invitation \<notin> set (map pi_id (get_pending_invitations ex_env ex_dup_store))"
proof -
  have sa: "is_super_admin ex_dup_store ex_env (auth_uid ex_env)"
    by (simp add: is_super_admin_def ex_defs)
  have pk: "distinct (map o_id (organizations ex_dup_store))"
    by (simp add: ex_defs)
  have pki: "distinct (map i_id (invitations ex_dup_store))"
    by (simp add: ex_defs)
  have p: "filter (pending ex_env) (invitations ex_dup_store) = [ex_pending_t1, ex_pending_t2]"
    by (simp add: pending_def ex_defs days_def)
  have x: "ex_expired_invitation \<in> set (invitations ex_dup_store)"
    "i_expires_at ex_expired_invitation \<le> now ex_env"
    by (simp_all add: ex_defs days_def)
  from get_pending_invitations_exact [OF sa pk pki] x
  show ?thesis
    using sa pk pki unfolding p by simp
qed

section \<open>The signup trigger\<close>

lemma select_invitation_Some:
  assumes "select_invitation e NEW d = Some i"
  shows "i \<in> set (invitations d) \<and> i_email i = au_email NEW \<and> i_used_at i = None \<and>
         now e < i_expires_at i"
proof -
  let ?c = "filter (\<lambda>i. i_email i = au_email NEW \<and> i_used_at i = None \<and> now e < i_expires_at i)
              (invitations d)"
  from assms obtain rest where "sort_key (\<lambda>i. - i_created_at i) ?c = i # rest"
    unfolding select_invitation_def by (auto split: list.splits)
  then have "i \<in> set (sort_key (\<lambda>i. - i_created_at i) ?c)"
    by simp
  then have "i \<in> set ?c"
    by simp
  then show ?thesis
    by simp
qed

text \<open>The row that the lookup returns has \<^verbatim>\<open>used_at\<close> null, by its \<^verbatim>\<open>WHERE\<close> clause, so
  the test \<^verbatim>\<open>invitation_record IS NOT NULL\<close> fails for every store and every signup, and the
  trigger always takes the branch of a regular signup.\<close>

lemma invitation_record_never_not_null:
  "\<not> invitation_record_is_not_null (select_invitation e NEW d)"
proof (cases "select_invitation e NEW d")
  case None
  then show ?thesis by (simp add: invitation_record_is_not_null_def)
next
  case (Some i)
  from select_invitation_Some [OF Some] have "i_used_at i = None" by simp
  with Some show ?thesis by (simp add: invitation_record_is_not_null_def)
qed

lemma handle_invitation_signup_regular:
  "handle_invitation_signup e NEW d = regular_signup e NEW d"
  unfolding handle_invitation_signup_def Let_def
  using invitation_record_never_not_null [of e NEW d] by simp

lemma select_public_org_Some:
  assumes "select_public_org e d = Some g"
  shows "g \<in> set (map o_id (organizations d)) \<and>
         list_ex (\<lambda>x. o_is_public x \<and> o_id x = g) (organizations d)"
proof -
  from assms obtain x xs where f: "filter o_is_public (organizations d) = x # xs"
    and g: "g = o_id ((x # xs) ! (scan_first e mod length (x # xs)))"
    unfolding select_public_org_def by (auto split: list.splits)
  let ?y = "(x # xs) ! (scan_first e mod length (x # xs))"
  have "scan_first e mod length (x # xs) < length (x # xs)"
    by simp
  then have "?y \<in> set (x # xs)"
    by (rule nth_mem)
  then have "?y \<in> set (filter o_is_public (organizations d))"
    unfolding f .
  then have y: "?y \<in> set (organizations d)" "o_is_public ?y"
    by simp_all
  show ?thesis
    unfolding g list_ex_iff using y by auto
qed

lemma select_public_org_None:
  "select_public_org e d = None \<longleftrightarrow> \<not> list_ex o_is_public (organizations d)"
proof (cases "filter o_is_public (organizations d)")
  case Nil
  then have "\<not> list_ex o_is_public (organizations d)"
    unfolding list_ex_iff filter_empty_conv by simp
  with Nil show ?thesis
    unfolding select_public_org_def by simp
next
  case (Cons x xs)
  then have "x \<in> set (filter o_is_public (organizations d))"
    by simp
  then have "list_ex o_is_public (organizations d)"
    unfolding list_ex_iff by auto
  with Cons show ?thesis
    unfolding select_public_org_def by simp
qed

lemma regular_signup_result:
  assumes fresh: "au_id NEW \<notin> set (map pr_id (profiles d))"
      "au_id NEW \<notin> set (map m_user_id (organization_members d))"
      "gen_random_uuid e 0 \<notin> set (map m_id (organization_members d))"
  shows "regular_signup e NEW d =
           Inr (case select_public_org e d of
                  None \<Rightarrow> d\<lparr>profiles := profiles d @ [new_profile e NEW]\<rparr>
                | Some g \<Rightarrow>
                    d\<lparr>profiles := profiles d @ [new_profile e NEW],
                      organization_members := organization_members d @
                        [\<lparr>m_id = gen_random_uuid e 0, m_org_id = g, m_user_id = au_id NEW,
                          m_role = Viewer, m_created_at = now e\<rparr>]\<rparr>)"
proof -
  let ?d1 = "d\<lparr>profiles := profiles d @ [new_profile e NEW]\<rparr>"
  have p: "insert_profile (new_profile e NEW) d = Inr ?d1"
    unfolding insert_profile_Inr using fresh(1) by (simp add: new_profile_def)
  show ?thesis
  proof (cases "select_public_org e d")
    case None
    then show ?thesis
      unfolding regular_signup_def Let_def p and_then_def by simp
  next
    case (Some g)
    let ?m = "\<lparr>m_id = gen_random_uuid e 0, m_org_id = g, m_user_id = au_id NEW,
               m_role = Viewer, m_created_at = now e\<rparr>"
    have nodup: "\<not> list_ex (\<lambda>m. m_org_id m = g \<and> m_user_id m = au_id NEW) (organization_members d)"
      using fresh(2) unfolding list_ex_iff set_map by (metis imageI)
    have "insert_organization_member ?m ?d1 =
            Inr (?d1\<lparr>organization_members := organization_members ?d1 @ [?m]\<rparr>)"
      unfolding insert_organization_member_Inr
      using fresh(3) nodup select_public_org_Some [OF Some, THEN conjunct1] by simp
    then show ?thesis
      unfolding regular_signup_def Let_def p and_then_def Some by simp
  qed
qed

text \<open>
  C4 (as amended). A signup whose e-mail has no pending invitation (none at all, or only
  expired or consumed ones) creates the profile and, when at least one organization of the
  store is public, one membership of the new user with role \<^verbatim>\<open>viewer\<close> in a public
  organization: the one the unordered \<^verbatim>\<open>LIMIT 1\<close> query returns, which is the public
  organization when there is exactly one. When no organization is public the user gets no
  membership. Nothing else is written: the invitations, a consumed one included, stay as
  they are and give no membership.
\<close>

theorem signup_without_invitation:
  assumes none: "select_invitation e NEW d = None"
    and fresh: "au_id NEW \<notin> set (map pr_id (profiles d))"
      "au_id NEW \<notin> set (map m_user_id (organization_members d))"
      "gen_random_uuid e 0 \<notin> set (map m_id (organization_members d))"
  shows "\<exists>d'. handle_invitation_signup e NEW d = Inr d' \<and>
           profiles d' = profiles d @ [new_profile e NEW] \<and>
           (list_ex o_is_public (organizations d) \<longrightarrow>
              (\<exists>g. select_public_org e d = Some g \<and>
                 list_ex (\<lambda>x. o_is_public x \<and> o_id x = g) (organizations d) \<and>
                 organization_members d' = organization_members d @
                   [\<lparr>m_id = gen_random_uuid e 0, m_org_id = g, m_user_id = au_id NEW,
                     m_role = Viewer, m_created_at = now e\<rparr>])) \<and>
           (\<not> list_ex o_is_public (organizations d) \<longrightarrow>
              organization_members d' = organization_members d) \<and>
           invitations d' = invitations d \<and> organizations d' = organizations d"
proof (cases "select_public_org e d")
  case None
  then have "\<not> list_ex o_is_public (organizations d)"
    unfolding select_public_org_None .
  then show ?thesis
    unfolding handle_invitation_signup_regular regular_signup_result [OF fresh] None
    by simp
next
  case (Some g)
  note pub = select_public_org_Some [OF Some, THEN conjunct2]
  have "select_public_org e d \<noteq> None"
    using Some by simp
  then have any: "list_ex o_is_public (organizations d)"
    unfolding select_public_org_None by simp
  show ?thesis
    unfolding handle_invitation_signup_regular regular_signup_result [OF fresh] Some
    using pub any by simp
qed

text \<open>The example store has one public organization; in a store with two of them the user
  is attached to the one the scan meets first, here the second row.\<close>

theorem signup_without_invitation_witness:
  "select_invitation ex_signup_env ex_used_user ex_store = None \<and>
   ex_consumed_invitation \<in> set (invitations ex_store) \<and>
   i_email ex_consumed_invitation = au_email ex_used_user \<and>
   (\<exists>d'. handle_invitation_signup ex_signup_env ex_used_user ex_store = Inr d' \<and>
      profiles d' = [new_profile ex_signup_env ex_used_user] \<and>
      organization_members d' =
        [ex_root_member, ex_guest_member,
         \<lparr>m_id = 500, m_org_id = 10, m_user_id = 4, m_role = Viewer, m_created_at = days 100\<rparr>] \<and>
      invitations d' = invitations ex_store) \<and>
   (\<exists>d'. handle_invitation_signup (ex_signup_env\<lparr>scan_first := 1\<rparr>) ex_used_user
            ex_two_public_store = Inr d' \<and>
      organization_members d' =
        [\<lparr>m_id = 500, m_org_id = 11, m_user_id = 4, m_role = Viewer, m_created_at = days 100\<rparr>])"
proof -
  have none: "select_invitation ex_signup_env ex_used_user ex_store = None"
    by (simp add: select_invitation_def ex_defs days_def)
  have fresh: "au_id ex_used_user \<notin> set (map pr_id (profiles ex_store))"
      "au_id ex_used_user \<notin> set (map m_user_id (organization_members ex_store))"
      "gen_random_uuid ex_signup_env 0 \<notin> set (map m_id (organization_members ex_store))"
    by (simp_all add: ex_defs)
  have any: "list_ex o_is_public (organizations ex_store)"
    by (simp add: ex_defs)
  have pub: "select_public_org ex_signup_env ex_store = Some 10"
    by (simp add: select_public_org_def ex_defs)
  have c: "ex_consumed_invitation \<in> set (invitations ex_store)"
    "i_email ex_consumed_invitation = au_email ex_used_user"
    by (simp_all add: ex_defs)
  from signup_without_invitation [OF none fresh] any
  obtain d' g where d': "handle_invitation_signup ex_signup_env ex_used_user ex_store = Inr d'"
    "profiles d' = profiles ex_store @ [new_profile ex_signup_env ex_used_user]"
    "select_public_org ex_signup_env ex_store = Some g"
    "organization_members d' = organization_members ex_store @
        [\<lparr>m_id = gen_random_uuid ex_signup_env 0, m_org_id = g, m_user_id = au_id ex_used_user,
          m_role = Viewer, m_created_at = now ex_signup_env\<rparr>]"
    "invitations d' = invitations ex_store"
    by blast
  from d'(3) pub have g: "g = 10"
    by simp
  have one: "\<exists>d'. handle_invitation_signup ex_signup_env ex_used_user ex_store = Inr d' \<and>
      profiles d' = [new_profile ex_signup_env ex_used_user] \<and>
      organization_members d' =
        [ex_root_member, ex_guest_member,
         \<lparr>m_id = 500, m_org_id = 10, m_user_id = 4, m_role = Viewer, m_created_at = days 100\<rparr>] \<and>
      invitations d' = invitations ex_store"
  proof (intro exI [of _ d'] conjI)
    show "handle_invitation_signup ex_signup_env ex_used_user ex_store = Inr d'"
      by (rule d'(1))
    show "profiles d' = [new_profile ex_signup_env ex_used_user]"
      using d'(2) by (simp add: ex_store_def)
    show "organization_members d' =
        [ex_root_member, ex_guest_member,
         \<lparr>m_id = 500, m_org_id = 10, m_user_id = 4, m_role = Viewer, m_created_at = days 100\<rparr>]"
      using d'(4) unfolding g
      by (simp add: ex_store_def ex_signup_env_def ex_env_def ex_used_user_def)
    show "invitations d' = invitations ex_store"
      by (rule d'(5))
  qed
  let ?e2 = "ex_signup_env\<lparr>scan_first := 1\<rparr>"
  have none2: "select_invitation ?e2 ex_used_user ex_two_public_store = None"
    by (simp add: select_invitation_def ex_defs)
  have fresh2: "au_id ex_used_user \<notin> set (map pr_id (profiles ex_two_public_store))"
      "au_id ex_used_user \<notin> set (map m_user_id (organization_members ex_two_public_store))"
      "gen_random_uuid ?e2 0 \<notin> set (map m_id (organization_members ex_two_public_store))"
    by (simp_all add: ex_defs)
  have any2: "list_ex o_is_public (organizations ex_two_public_store)"
    by (simp add: ex_defs)
  have pub2: "select_public_org ?e2 ex_two_public_store = Some 11"
    by (simp add: select_public_org_def ex_defs)
  from signup_without_invitation [OF none2 fresh2] any2
  obtain d2 g2 where d2: "handle_invitation_signup ?e2 ex_used_user ex_two_public_store = Inr d2"
    "select_public_org ?e2 ex_two_public_store = Some g2"
    "organization_members d2 = organization_members ex_two_public_store @
        [\<lparr>m_id = gen_random_uuid ?e2 0, m_org_id = g2, m_user_id = au_id ex_used_user,
          m_role = Viewer, m_created_at = now ?e2\<rparr>]"
    by blast
  from d2(2) pub2 have g2: "g2 = 11"
    by simp
  have "organization_members d2 =
        [\<lparr>m_id = 500, m_org_id = 11, m_user_id = 4, m_role = Viewer, m_created_at = days 100\<rparr>]"
    using d2(3) unfolding g2
    by (simp add: ex_two_public_store_def ex_signup_env_def ex_env_def ex_used_user_def)
  with d2(1) have two: "\<exists>d'. handle_invitation_signup ?e2 ex_used_user ex_two_public_store = Inr d' \<and>
      organization_members d' =
        [\<lparr>m_id = 500, m_org_id = 11, m_user_id = 4, m_role = Viewer, m_created_at = days 100\<rparr>]"
    by blast
  show ?thesis
    by (intro conjI) (rule none, rule c(1), rule c(2), rule one, rule two)
qed

text \<open>Where no organization of the store is public the signup leaves the user without any
  membership. The store has one organization, Acme, which is not public, and a consumed
  invitation to it for the address that signs up.\<close>

theorem signup_without_public_org_counterexample:
  "select_invitation ex_signup_env ex_used_user ex_private_store = None \<and>
   handle_invitation_signup ex_signup_env ex_used_user ex_private_store =
     Inr (ex_private_store\<lparr>profiles :=
            [\<lparr>pr_id = 4, pr_email = ''used@x.com'', pr_display_name = Some ''Second'',
              pr_created_at = days 100, pr_updated_at = days 100\<rparr>]\<rparr>) \<and>
   organization_members (ex_private_store\<lparr>profiles :=
            [\<lparr>pr_id = 4, pr_email = ''used@x.com'', pr_display_name = Some ''Second'',
              pr_created_at = days 100, pr_updated_at = days 100\<rparr>]\<rparr>) = []"
  by (simp add: handle_invitation_signup_def select_invitation_def
      invitation_record_is_not_null_def regular_signup_def select_public_org_def new_profile_def
      and_then_def insert_profile_def ex_defs days_def)

lemma select_invitation_newest:
  assumes s: "select_invitation e NEW d = Some i"
    and j: "j \<in> set (invitations d)" "i_email j = au_email NEW" "i_used_at j = None"
      "now e < i_expires_at j"
  shows "i_created_at j \<le> i_created_at i"
proof -
  let ?c = "filter (\<lambda>i. i_email i = au_email NEW \<and> i_used_at i = None \<and> now e < i_expires_at i)
              (invitations d)"
  let ?s = "sort_key (\<lambda>i. - i_created_at i) ?c"
  from s obtain rest where hd: "?s = i # rest"
    unfolding select_invitation_def by (auto split: list.splits)
  have "sorted (map (\<lambda>i. - i_created_at i) ?s)"
    by (rule sorted_sort_key)
  then have le: "\<forall>k \<in> set rest. - i_created_at i \<le> - i_created_at k"
    unfolding hd by simp
  from j have "j \<in> set ?c" by simp
  then have "j \<in> set ?s" by simp
  then have "j = i \<or> j \<in> set rest" unfolding hd by simp
  with le show ?thesis by auto
qed

lemma signup_never_consumes:
  assumes "handle_invitation_signup e NEW d = Inr d'"
  shows "invitations d' = invitations d"
proof -
  from assms have r: "regular_signup e NEW d = Inr d'"
    unfolding handle_invitation_signup_regular .
  then obtain d1 where p: "insert_profile (new_profile e NEW) d = Inr d1"
    and m: "(case select_public_org e d of
               Some g \<Rightarrow> insert_organization_member
                          \<lparr>m_id = gen_random_uuid e 0, m_org_id = g, m_user_id = au_id NEW,
                           m_role = Viewer, m_created_at = now e\<rparr> d1
             | None \<Rightarrow> Inr d1) = Inr d'"
    unfolding regular_signup_def Let_def and_then_Inr by blast
  from p have i1: "invitations d1 = invitations d"
    unfolding insert_profile_Inr by simp
  show ?thesis
  proof (cases "select_public_org e d")
    case None
    with m i1 show ?thesis by simp
  next
    case (Some g)
    with m have "insert_organization_member
                          \<lparr>m_id = gen_random_uuid e 0, m_org_id = g, m_user_id = au_id NEW,
                           m_role = Viewer, m_created_at = now e\<rparr> d1 = Inr d'"
      by simp
    then have "invitations d' = invitations d1"
      unfolding insert_organization_member_Inr by simp
    with i1 show ?thesis by simp
  qed
qed

section \<open>The branch for a found invitation, as it is written\<close>

text \<open>
  What lines 114 to 150 do once they run, for a pending invitation \<open>i\<close> of the store and a
  new user: the invitation is marked used and the profile is created; with an organization
  the user becomes a member of it in the invitation's role; without one, a
  \<^verbatim>\<open>super_admin\<close> invitation gives a \<^verbatim>\<open>super_admin\<close> membership in the public
  organization, which is created when there is none, and any other role gives no membership.
\<close>

lemma invited_signup_result:
  assumes fresh: "au_id NEW \<notin> set (map pr_id (profiles d))"
      "au_id NEW \<notin> set (map m_user_id (organization_members d))"
      "gen_random_uuid e 0 \<notin> set (map m_id (organization_members d))"
      "gen_random_uuid e 1 \<notin> set (map m_id (organization_members d))"
      "gen_random_uuid e 0 \<notin> set (map o_id (organizations d))"
    and fk: "\<forall>g. i_org_id i = Some g \<longrightarrow> g \<in> set (map o_id (organizations d))"
  shows "invited_signup e NEW i d =
     Inr (let d2 = d\<lparr>invitations :=
                       map (\<lambda>j. if i_id j = i_id i then j\<lparr>i_used_at := Some (now e)\<rparr> else j)
                         (invitations d),
                     profiles := profiles d @ [new_profile e NEW]\<rparr>
          in case i_org_id i of
               Some g \<Rightarrow>
                 d2\<lparr>organization_members := organization_members d @
                      [\<lparr>m_id = gen_random_uuid e 0, m_org_id = g, m_user_id = au_id NEW,
                        m_role = i_role i, m_created_at = now e\<rparr>]\<rparr>
             | None \<Rightarrow>
                 if i_role i = Super_admin
                 then (case select_public_org e d of
                         Some g \<Rightarrow>
                           d2\<lparr>organization_members := organization_members d @
                                [\<lparr>m_id = gen_random_uuid e 0, m_org_id = g,
                                  m_user_id = au_id NEW, m_role = Super_admin,
                                  m_created_at = now e\<rparr>]\<rparr>
                       | None \<Rightarrow>
                           d2\<lparr>organizations := organizations d @
                                [\<lparr>o_id = gen_random_uuid e 0, o_name = ''Public Organization'',
                                  o_is_public = True, o_created_at = now e,
                                  o_updated_at = now e\<rparr>],
                              organization_members := organization_members d @
                                [\<lparr>m_id = gen_random_uuid e 1, m_org_id = gen_random_uuid e 0,
                                  m_user_id = au_id NEW, m_role = Super_admin,
                                  m_created_at = now e\<rparr>]\<rparr>)
                 else d2)"
proof -
  let ?d1 = "d\<lparr>invitations :=
                 map (\<lambda>j. if i_id j = i_id i then j\<lparr>i_used_at := Some (now e)\<rparr> else j)
                   (invitations d)\<rparr>"
  let ?d2 = "?d1\<lparr>profiles := profiles d @ [new_profile e NEW]\<rparr>"
  have p: "insert_profile (new_profile e NEW) ?d1 = Inr ?d2"
    unfolding insert_profile_Inr using fresh(1) by (simp add: new_profile_def)
  have nodup: "\<not> list_ex (\<lambda>m. m_org_id m = g \<and> m_user_id m = au_id NEW) (organization_members d)"
    for g
    using fresh(2) unfolding list_ex_iff set_map by (metis imageI)
  have member: "insert_organization_member
            \<lparr>m_id = gen_random_uuid e 0, m_org_id = g, m_user_id = au_id NEW, m_role = r,
             m_created_at = now e\<rparr> ?d2 =
          Inr (?d2\<lparr>organization_members := organization_members d @
                 [\<lparr>m_id = gen_random_uuid e 0, m_org_id = g, m_user_id = au_id NEW, m_role = r,
                   m_created_at = now e\<rparr>]\<rparr>)"
    if "g \<in> set (map o_id (organizations d))" for g r
    unfolding insert_organization_member_Inr using fresh(3) nodup that by simp
  show ?thesis
  proof (cases "i_org_id i")
    case (Some g)
    with fk have "g \<in> set (map o_id (organizations d))" by simp
    from member [OF this] show ?thesis
      unfolding invited_signup_def p and_then_def Let_def Some by simp
  next
    case None
    show ?thesis
    proof (cases "i_role i = Super_admin")
      case False
      with None show ?thesis
        unfolding invited_signup_def p and_then_def Let_def by simp
    next
      case True
      have pub: "select_public_org e ?d2 = select_public_org e d"
        by (simp add: select_public_org_def)
      show ?thesis
      proof (cases "select_public_org e d")
        case (Some g)
        from member [OF select_public_org_Some [OF Some, THEN conjunct1]] show ?thesis
          unfolding invited_signup_def p and_then_def Let_def using True
          by (simp add: None pub Some)
      next
        case no_public: None
        let ?g = "\<lparr>o_id = gen_random_uuid e 0, o_name = ''Public Organization'',
                   o_is_public = True, o_created_at = now e, o_updated_at = now e\<rparr>"
        let ?d3 = "?d2\<lparr>organizations := organizations d @ [?g]\<rparr>"
        have o: "insert_organization ?g ?d2 = Inr ?d3"
          unfolding insert_organization_Inr using fresh(5) by simp
        have m: "insert_organization_member
            \<lparr>m_id = gen_random_uuid e 1, m_org_id = gen_random_uuid e 0, m_user_id = au_id NEW,
             m_role = Super_admin, m_created_at = now e\<rparr> ?d3 =
          Inr (?d3\<lparr>organization_members := organization_members d @
                 [\<lparr>m_id = gen_random_uuid e 1, m_org_id = gen_random_uuid e 0,
                   m_user_id = au_id NEW, m_role = Super_admin, m_created_at = now e\<rparr>]\<rparr>)"
          unfolding insert_organization_member_Inr using fresh(4) nodup by simp
        show ?thesis
          unfolding invited_signup_def p and_then_def Let_def using True m
          by (simp add: None pub no_public o)
      qed
    qed
  qed
qed

section \<open>Signups that have a pending invitation\<close>

text \<open>
  C3. Two pending invitations for \<^verbatim>\<open>dup@x.com\<close>, created on day 97 and on day 98; the
  signup arrives on day 100. The lookup does find the newer invitation (admin of Acme), but
  the test on the record fails: neither invitation is consumed, and the user becomes a
  \<^verbatim>\<open>viewer\<close> of the public organization instead of an \<^verbatim>\<open>admin\<close> of Acme.
\<close>

theorem signup_with_two_pending_invitations:
  "select_invitation ex_signup_env ex_dup_user ex_dup_store = Some ex_pending_t2 \<and>
   handle_invitation_signup ex_signup_env ex_dup_user ex_dup_store =
     Inr (ex_dup_store
           \<lparr>organization_members :=
              [ex_root_member, ex_guest_member,
               \<lparr>m_id = 500, m_org_id = 10, m_user_id = 3, m_role = Viewer,
                m_created_at = days 100\<rparr>],
            profiles :=
              [\<lparr>pr_id = 3, pr_email = ''dup@x.com'', pr_display_name = Some ''dup@x.com'',
                pr_created_at = days 100, pr_updated_at = days 100\<rparr>]\<rparr>) \<and>
   i_used_at ex_pending_t2 = None \<and> i_role ex_pending_t2 = Admin \<and>
   i_org_id ex_pending_t2 = Some 11"
  by (simp add: handle_invitation_signup_def select_invitation_def
      invitation_record_is_not_null_def regular_signup_def select_public_org_def new_profile_def
      and_then_def insert_profile_def insert_organization_member_def ex_defs days_def)

text \<open>
  C5. The store after the migrations, and the signup of the address of the bootstrap
  invitation (role \<^verbatim>\<open>super_admin\<close>, no organization). The lookup finds the invitation, the
  test on the record fails, and the user becomes a \<^verbatim>\<open>viewer\<close> of the public
  organization; without a public organization none is created and the user gets no
  membership. In both cases nobody is a super-admin afterwards.
\<close>

theorem signup_with_super_admin_invitation:
  "select_invitation ex_signup_env ex_bootstrap_user ex_initial_store =
     Some ex_bootstrap_invitation \<and>
   handle_invitation_signup ex_signup_env ex_bootstrap_user ex_initial_store =
     Inr (ex_initial_store
           \<lparr>organization_members :=
              [\<lparr>m_id = 500, m_org_id = 10, m_user_id = 1, m_role = Viewer,
                m_created_at = days 100\<rparr>],
            profiles :=
              [\<lparr>pr_id = 1, pr_email = ''eduardo.ferro.aldama@gmail.com'',
                pr_display_name = Some ''eduardo.ferro.aldama@gmail.com'',
                pr_created_at = days 100, pr_updated_at = days 100\<rparr>]\<rparr>) \<and>
   handle_invitation_signup ex_signup_env ex_bootstrap_user
       (ex_initial_store\<lparr>organizations := []\<rparr>) =
     Inr (ex_initial_store
           \<lparr>organizations := [],
            profiles :=
              [\<lparr>pr_id = 1, pr_email = ''eduardo.ferro.aldama@gmail.com'',
                pr_display_name = Some ''eduardo.ferro.aldama@gmail.com'',
                pr_created_at = days 100, pr_updated_at = days 100\<rparr>]\<rparr>)"
  by (simp add: handle_invitation_signup_def select_invitation_def
      invitation_record_is_not_null_def regular_signup_def select_public_org_def new_profile_def
      and_then_def insert_profile_def insert_organization_member_def ex_defs days_def)

text \<open>
  C9. A pending invitation with a role other than \<^verbatim>\<open>super_admin\<close> and no organization,
  and the signup of its address. The lookup finds the invitation and the test on the record
  fails: the invitation is not marked consumed, and a membership row is created, as
  \<^verbatim>\<open>viewer\<close> of the public organization.
\<close>

theorem signup_with_invitation_without_org:
  "select_invitation ex_signup_env ex_panel_user ex_panel_store = Some ex_panel_invitation \<and>
   i_org_id ex_panel_invitation = None \<and> i_role ex_panel_invitation = Admin \<and>
   handle_invitation_signup ex_signup_env ex_panel_user ex_panel_store =
     Inr (ex_panel_store
           \<lparr>organization_members :=
              [ex_root_member, ex_guest_member,
               \<lparr>m_id = 500, m_org_id = 10, m_user_id = 5, m_role = Viewer,
                m_created_at = days 100\<rparr>],
            profiles :=
              [\<lparr>pr_id = 5, pr_email = ''ui@x.com'', pr_display_name = Some ''ui@x.com'',
                pr_created_at = days 100, pr_updated_at = days 100\<rparr>]\<rparr>) \<and>
   invitations ex_panel_store = [ex_panel_invitation] \<and> i_used_at ex_panel_invitation = None"
  by (simp add: handle_invitation_signup_def select_invitation_def
      invitation_record_is_not_null_def regular_signup_def select_public_org_def new_profile_def
      and_then_def insert_profile_def insert_organization_member_def ex_defs days_def)

section \<open>The e-mail pattern\<close>

lemma local_char_not_at: "local_char c \<Longrightarrow> c \<noteq> CHR ''@''"
  by (auto simp: local_char_def is_alpha_def is_upper_def is_lower_def is_digit_def)

lemma is_alpha_not_dot: "is_alpha c \<Longrightarrow> c \<noteq> CHR ''.''"
  by (auto simp: is_alpha_def is_upper_def is_lower_def)

lemma split_at_first:
  assumes "\<forall>c \<in> set l. c \<noteq> a"
  shows "takeWhile (\<lambda>c. c \<noteq> a) (l @ a # r) = l" and "dropWhile (\<lambda>c. c \<noteq> a) (l @ a # r) = a # r"
  using assms by (simp_all add: takeWhile_append2 dropWhile_append2)

lemma split_at_last:
  assumes "\<forall>c \<in> set t. c \<noteq> a"
  shows "rev (takeWhile (\<lambda>c. c \<noteq> a) (rev (q @ a # t))) = t"
    and "rev (dropWhile (\<lambda>c. c \<noteq> a) (rev (q @ a # t))) = q @ [a]"
proof -
  have r: "rev (q @ a # t) = rev t @ a # rev q" by simp
  have n: "\<forall>c \<in> set (rev t). c \<noteq> a" using assms by simp
  show "rev (takeWhile (\<lambda>c. c \<noteq> a) (rev (q @ a # t))) = t"
    unfolding r split_at_first(1) [OF n] by simp
  show "rev (dropWhile (\<lambda>c. c \<noteq> a) (rev (q @ a # t))) = q @ [a]"
    unfolding r split_at_first(2) [OF n] by simp
qed

lemma dropWhile_neq_Cons:
  assumes "dropWhile (\<lambda>c. c \<noteq> a) s = x # r"
  shows "x = a" and "s = takeWhile (\<lambda>c. c \<noteq> a) s @ a # r"
proof -
  from assms have "dropWhile (\<lambda>c. c \<noteq> a) s \<noteq> []"
    by simp
  then have "\<not> (hd (dropWhile (\<lambda>c. c \<noteq> a) s) \<noteq> a)"
    by (rule hd_dropWhile)
  then show x: "x = a"
    unfolding assms by simp
  have "s = takeWhile (\<lambda>c. c \<noteq> a) s @ dropWhile (\<lambda>c. c \<noteq> a) s"
    by simp
  then show "s = takeWhile (\<lambda>c. c \<noteq> a) s @ a # r"
    unfolding assms x .
qed

text \<open>The function \<open>email_format_ok\<close> accepts exactly the strings of the pattern: a non-empty
  local part, \<^verbatim>\<open>@\<close>, a non-empty domain part, a dot and at least two letters.\<close>

lemma email_format_ok_iff:
  "email_format_ok s \<longleftrightarrow>
     (\<exists>l q t. s = l @ CHR ''@'' # q @ CHR ''.'' # t \<and>
        l \<noteq> [] \<and> list_all local_char l \<and> q \<noteq> [] \<and> list_all domain_char q \<and>
        2 \<le> length t \<and> list_all is_alpha t)"
proof
  assume ok: "email_format_ok s"
  let ?l = "takeWhile (\<lambda>c. c \<noteq> CHR ''@'') s"
  obtain x rest where r: "dropWhile (\<lambda>c. c \<noteq> CHR ''@'') s = x # rest"
  proof (cases "dropWhile (\<lambda>c. c \<noteq> CHR ''@'') s")
    case Nil
    with ok show ?thesis
      unfolding email_format_ok_def Let_def by simp
  next
    case (Cons x rest)
    then show ?thesis by (rule that)
  qed
  note s = dropWhile_neq_Cons [OF r]
  let ?t = "rev (takeWhile (\<lambda>c. c \<noteq> CHR ''.'') (rev rest))"
  let ?q = "rev (dropWhile (\<lambda>c. c \<noteq> CHR ''.'') (rev rest))"
  from ok have ok': "?l \<noteq> [] \<and> list_all local_char ?l \<and>
      (case ?q of [] \<Rightarrow> False
       | a # b \<Rightarrow> butlast ?q \<noteq> [] \<and> list_all domain_char (butlast ?q) \<and>
                  2 \<le> length ?t \<and> list_all is_alpha ?t)"
    unfolding email_format_ok_def Let_def r list.case .
  then have l: "?l \<noteq> []" "list_all local_char ?l"
    by blast+
  have rest': "butlast ?q \<noteq> [] \<and> list_all domain_char (butlast ?q) \<and>
                  2 \<le> length ?t \<and> list_all is_alpha ?t"
  proof (cases ?q)
    case Nil
    with ok' show ?thesis by simp
  next
    case (Cons a b)
    with ok' show ?thesis by simp
  qed
  then have q: "butlast ?q \<noteq> []" "list_all domain_char (butlast ?q)"
    and t: "2 \<le> length ?t" "list_all is_alpha ?t"
    by blast+
  have "dropWhile (\<lambda>c. c \<noteq> CHR ''.'') (rev rest) \<noteq> []"
  proof
    assume "dropWhile (\<lambda>c. c \<noteq> CHR ''.'') (rev rest) = []"
    then have "butlast ?q = []" by (simp only: rev.simps butlast.simps)
    with q(1) show False by contradiction
  qed
  then obtain y ys where d: "dropWhile (\<lambda>c. c \<noteq> CHR ''.'') (rev rest) = y # ys"
    by (cases "dropWhile (\<lambda>c. c \<noteq> CHR ''.'') (rev rest)") auto
  note u = dropWhile_neq_Cons [OF d]
  have bq: "butlast ?q = rev ys"
    unfolding d by simp
  from u(2) have "rev (rev rest) = rev (takeWhile (\<lambda>c. c \<noteq> CHR ''.'') (rev rest) @ CHR ''.'' # ys)"
    by (rule arg_cong)
  then have rest: "rest = rev ys @ CHR ''.'' # ?t"
    by simp
  have "s = ?l @ CHR ''@'' # rest"
    by (rule s(2))
  then have "s = ?l @ CHR ''@'' # rev ys @ CHR ''.'' # ?t"
    using rest by simp
  with l q t show "\<exists>l q t. s = l @ CHR ''@'' # q @ CHR ''.'' # t \<and>
        l \<noteq> [] \<and> list_all local_char l \<and> q \<noteq> [] \<and> list_all domain_char q \<and>
        2 \<le> length t \<and> list_all is_alpha t"
    unfolding bq by blast
next
  assume "\<exists>l q t. s = l @ CHR ''@'' # q @ CHR ''.'' # t \<and>
        l \<noteq> [] \<and> list_all local_char l \<and> q \<noteq> [] \<and> list_all domain_char q \<and>
        2 \<le> length t \<and> list_all is_alpha t"
  then obtain l q t where s: "s = l @ CHR ''@'' # (q @ CHR ''.'' # t)"
    and l: "l \<noteq> []" "list_all local_char l"
    and q: "q \<noteq> []" "list_all domain_char q"
    and t: "2 \<le> length t" "list_all is_alpha t"
    by auto
  from l(2) have nl: "\<forall>c \<in> set l. c \<noteq> CHR ''@''"
    using local_char_not_at by (auto simp: list_all_iff)
  from t(2) have nt: "\<forall>c \<in> set t. c \<noteq> CHR ''.''"
    using is_alpha_not_dot by (auto simp: list_all_iff)
  show "email_format_ok s"
    unfolding email_format_ok_def Let_def s split_at_first [OF nl] list.case
      split_at_last [OF nt]
    using l q t by (cases q) simp_all
qed

section \<open>Lower-cased invitations and the raw signup address\<close>

lemma lower_char_not_upper: "\<not> is_upper (lower_char c)"
  unfolding lower_char_def is_upper_def
  by (cases "65 \<le> (of_char c :: nat) \<and> (of_char c :: nat) \<le> 90") auto

lemma LOWER_no_upper: "\<not> list_ex is_upper (LOWER s)"
  unfolding LOWER_def list_ex_iff using lower_char_not_upper by auto

lemma create_user_invitation_Inr:
  "create_user_invitation e p_email p_role p_org_id d = Inr (invitation_id, d') \<longleftrightarrow>
     is_super_admin d e (auth_uid e) \<and> email_format_ok p_email \<and>
     function_resolves [] (gen_random_bytes_schema e) \<and>
     invitation_id = gen_random_uuid e 0 \<and>
     insert_invitation
       \<lparr>i_id = gen_random_uuid e 0, i_email = LOWER p_email,
        i_token = random_token e, i_role = p_role, i_org_id = p_org_id,
        i_invited_by = auth_uid e, i_expires_at = now e + days 7, i_used_at = None,
        i_created_at = now e\<rparr> d = Inr d'"
  unfolding create_user_invitation_def generate_invitation_token_def Let_def
  by (cases "is_super_admin d e (auth_uid e)"; cases "email_format_ok p_email";
      cases "function_resolves [] (gen_random_bytes_schema e)")
    (auto split: sum.splits)

text \<open>
  Under the empty search path of \<^verbatim>\<open>create_user_invitation\<close> the name
  \<^verbatim>\<open>gen_random_bytes\<close> resolves only from \<^verbatim>\<open>pg_catalog\<close>. Where pgcrypto lives in
  another schema, or is not installed, a permitted call with a well-formed address fails
  in the token function, and nothing is stored.
\<close>

lemma function_resolves_empty:
  "function_resolves [] schema \<longleftrightarrow> schema = Some ''pg_catalog''"
  unfolding function_resolves_def by (cases schema) auto

lemma create_user_invitation_undefined_function:
  assumes "is_super_admin d e (auth_uid e)" and "email_format_ok p_email"
    and "gen_random_bytes_schema e \<noteq> Some ''pg_catalog''"
  shows "rpc (create_user_invitation e p_email p_role p_org_id) d =
           (Inl (Undefined_function ''gen_random_bytes(integer)''), d)"
  using assms
  unfolding rpc_def create_user_invitation_def generate_invitation_token_def
    function_resolves_empty
  by simp

lemma ex_lower: "LOWER ''New@X.com'' = ''new@x.com''"
  by code_simp

lemma ex_format: "email_format_ok ''New@X.com''"
  by code_simp

lemma create_user_invitation_extensions_schema:
  "rpc (create_user_invitation ex_env ''New@X.com'' Admin (Some 10)) ex_store =
     (Inl (Undefined_function ''gen_random_bytes(integer)''), ex_store)"
proof -
  have "gen_random_bytes_schema ex_env \<noteq> Some ''pg_catalog''"
    by (simp add: ex_env_def)
  with ex_root_is_super_admin ex_format show ?thesis
    by (rule create_user_invitation_undefined_function)
qed

text \<open>
  C10. The row that \<^verbatim>\<open>create_user_invitation\<close> inserts carries the address
  \<^verbatim>\<open>LOWER(p_email)\<close>, and the lookup of the signup trigger compares the stored address
  with \<^verbatim>\<open>NEW.email\<close> by plain equality. So, whenever a call creates an invitation, the
  lookup returns that invitation only for a signup whose address is exactly the lower-cased
  invited address, and never for an address that has an upper-case letter; and the same
  holds of any stored row whose address is a lower-cased one, however it was inserted.
\<close>

theorem created_invitation_matches_lowercase_only:
  "(\<forall>invitation_id d'.
      create_user_invitation e p_email p_role p_org_id d = Inr (invitation_id, d') \<longrightarrow>
        invitations d' = invitations d @
          [\<lparr>i_id = invitation_id, i_email = LOWER p_email, i_token = random_token e,
            i_role = p_role, i_org_id = p_org_id, i_invited_by = auth_uid e,
            i_expires_at = now e + days 7, i_used_at = None, i_created_at = now e\<rparr>] \<and>
        (\<forall>j \<in> set (invitations d'). i_id j = invitation_id \<longrightarrow> i_email j = LOWER p_email) \<and>
        (\<forall>e' NEW j. select_invitation e' NEW d' = Some j \<longrightarrow> i_id j = invitation_id \<longrightarrow>
           au_email NEW = LOWER p_email) \<and>
        (\<forall>e' NEW j. list_ex is_upper (au_email NEW) \<longrightarrow>
           select_invitation e' NEW d' = Some j \<longrightarrow> i_id j \<noteq> invitation_id)) \<and>
   (\<forall>e' NEW s j. select_invitation e' NEW s = Some j \<longrightarrow> i_email j = LOWER p_email \<longrightarrow>
      au_email NEW = LOWER p_email \<and> \<not> list_ex is_upper (au_email NEW))"
proof (rule conjI)
  show "\<forall>e' NEW s j. select_invitation e' NEW s = Some j \<longrightarrow> i_email j = LOWER p_email \<longrightarrow>
      au_email NEW = LOWER p_email \<and> \<not> list_ex is_upper (au_email NEW)"
  proof (intro allI impI)
    fix e' NEW s j
    assume sel: "select_invitation e' NEW s = Some j" and low: "i_email j = LOWER p_email"
    from select_invitation_Some [OF sel] have "i_email j = au_email NEW"
      by simp
    with low have eq: "au_email NEW = LOWER p_email"
      by simp
    with LOWER_no_upper [of p_email]
    show "au_email NEW = LOWER p_email \<and> \<not> list_ex is_upper (au_email NEW)"
      by simp
  qed
next
  show "\<forall>invitation_id d'.
      create_user_invitation e p_email p_role p_org_id d = Inr (invitation_id, d') \<longrightarrow>
        invitations d' = invitations d @
          [\<lparr>i_id = invitation_id, i_email = LOWER p_email, i_token = random_token e,
            i_role = p_role, i_org_id = p_org_id, i_invited_by = auth_uid e,
            i_expires_at = now e + days 7, i_used_at = None, i_created_at = now e\<rparr>] \<and>
        (\<forall>j \<in> set (invitations d'). i_id j = invitation_id \<longrightarrow> i_email j = LOWER p_email) \<and>
        (\<forall>e' NEW j. select_invitation e' NEW d' = Some j \<longrightarrow> i_id j = invitation_id \<longrightarrow>
           au_email NEW = LOWER p_email) \<and>
        (\<forall>e' NEW j. list_ex is_upper (au_email NEW) \<longrightarrow>
           select_invitation e' NEW d' = Some j \<longrightarrow> i_id j \<noteq> invitation_id)"
  proof (intro allI impI)
    fix invitation_id d'
    assume ok: "create_user_invitation e p_email p_role p_org_id d = Inr (invitation_id, d')"
    let ?row = "\<lparr>i_id = invitation_id, i_email = LOWER p_email, i_token = random_token e,
            i_role = p_role, i_org_id = p_org_id, i_invited_by = auth_uid e,
            i_expires_at = now e + days 7, i_used_at = None, i_created_at = now e\<rparr>"
    from ok have new: "invitation_id \<notin> set (map i_id (invitations d))"
      and d': "d' = d\<lparr>invitations := invitations d @ [?row]\<rparr>"
      unfolding create_user_invitation_Inr insert_invitation_Inr by auto
    have a: "invitations d' = invitations d @ [?row]"
      unfolding d' by simp
    have b: "\<forall>j \<in> set (invitations d'). i_id j = invitation_id \<longrightarrow> i_email j = LOWER p_email"
    proof (intro ballI impI)
      fix j assume j: "j \<in> set (invitations d')" "i_id j = invitation_id"
      from j(2) new have "j \<notin> set (invitations d)"
        unfolding set_map by (metis imageI)
      with j(1) have "j = ?row"
        unfolding a by simp
      then show "i_email j = LOWER p_email"
        by simp
    qed
    have c: "\<forall>e' NEW j. select_invitation e' NEW d' = Some j \<longrightarrow> i_id j = invitation_id \<longrightarrow>
              au_email NEW = LOWER p_email"
    proof (intro allI impI)
      fix e' NEW j
      assume s: "select_invitation e' NEW d' = Some j" and k: "i_id j = invitation_id"
      from select_invitation_Some [OF s] have "j \<in> set (invitations d')" "i_email j = au_email NEW"
        by simp_all
      with b k show "au_email NEW = LOWER p_email"
        by auto
    qed
    have u: "\<forall>e' NEW j. list_ex is_upper (au_email NEW) \<longrightarrow> select_invitation e' NEW d' = Some j \<longrightarrow>
              i_id j \<noteq> invitation_id"
    proof (intro allI impI notI)
      fix e' NEW j
      assume up: "list_ex is_upper (au_email NEW)"
        and s: "select_invitation e' NEW d' = Some j" and k: "i_id j = invitation_id"
      from c s k have "au_email NEW = LOWER p_email"
        by blast
      with up LOWER_no_upper [of p_email] show False
        by simp
    qed
    show "invitations d' = invitations d @ [?row] \<and>
        (\<forall>j \<in> set (invitations d'). i_id j = invitation_id \<longrightarrow> i_email j = LOWER p_email) \<and>
        (\<forall>e' NEW j. select_invitation e' NEW d' = Some j \<longrightarrow> i_id j = invitation_id \<longrightarrow>
           au_email NEW = LOWER p_email) \<and>
        (\<forall>e' NEW j. list_ex is_upper (au_email NEW) \<longrightarrow>
           select_invitation e' NEW d' = Some j \<longrightarrow> i_id j \<noteq> invitation_id)"
      by (intro conjI) (rule a, rule b, rule c, rule u)
  qed
qed

lemma ex_bootstrap_lower:
  "LOWER ''Eduardo.Ferro.Aldama@gmail.com'' = ''eduardo.ferro.aldama@gmail.com''"
  by code_simp

text \<open>
  Two instances. On the store as the migrations leave it, the bootstrap invitation holds a
  lower-cased address: the signup with that address is matched, the signup with the
  capitalised address is not. And in an installation with pgcrypto in \<^verbatim>\<open>pg_catalog\<close>
  a call for \<^verbatim>\<open>New@X.com\<close> stores \<^verbatim>\<open>new@x.com\<close>, which the signup of
  \<^verbatim>\<open>New@X.com\<close> does not match.
\<close>

theorem created_invitation_matches_lowercase_only_witness:
  "select_invitation ex_signup_env ex_bootstrap_user ex_initial_store
      = Some ex_bootstrap_invitation \<and>
   i_email ex_bootstrap_invitation = LOWER ''Eduardo.Ferro.Aldama@gmail.com'' \<and>
   au_email ex_bootstrap_user = LOWER ''Eduardo.Ferro.Aldama@gmail.com'' \<and>
   select_invitation ex_signup_env
      (ex_bootstrap_user\<lparr>au_email := ''Eduardo.Ferro.Aldama@gmail.com''\<rparr>) ex_initial_store
      = None \<and>
   (\<exists>d'. create_user_invitation ex_catalog_env ''New@X.com'' Admin (Some 10) ex_store
             = Inr (500, d') \<and>
      (\<forall>j \<in> set (invitations d'). i_id j = 500 \<longrightarrow> i_email j = ''new@x.com'') \<and>
      list_ex is_upper (au_email ex_mixed_case_user) \<and>
      select_invitation ex_signup_env ex_mixed_case_user d' = None \<and>
      (\<exists>j. select_invitation ex_signup_env (ex_mixed_case_user\<lparr>au_email := ''new@x.com''\<rparr>) d'
              = Some j \<and> i_id j = 500))"
proof -
  note t = created_invitation_matches_lowercase_only
  have sel: "select_invitation ex_signup_env ex_bootstrap_user ex_initial_store
      = Some ex_bootstrap_invitation"
    by (simp add: select_invitation_def ex_defs days_def)
  have low: "i_email ex_bootstrap_invitation = LOWER ''Eduardo.Ferro.Aldama@gmail.com''"
    unfolding ex_bootstrap_lower by (simp add: ex_defs)
  from t [of ex_signup_env "''Eduardo.Ferro.Aldama@gmail.com''"] sel low
  have m: "au_email ex_bootstrap_user = LOWER ''Eduardo.Ferro.Aldama@gmail.com''"
    by blast
  have cap: "select_invitation ex_signup_env
      (ex_bootstrap_user\<lparr>au_email := ''Eduardo.Ferro.Aldama@gmail.com''\<rparr>) ex_initial_store
      = None"
    by (simp add: select_invitation_def ex_defs days_def)
  let ?row = "\<lparr>i_id = 500, i_email = ''new@x.com'', i_token = ''t500'', i_role = Admin,
               i_org_id = Some 10, i_invited_by = Some 1, i_expires_at = days 107,
               i_used_at = None, i_created_at = days 100\<rparr>"
  let ?d' = "ex_store\<lparr>invitations := invitations ex_store @ [?row]\<rparr>"
  have sa: "is_super_admin ex_store ex_catalog_env (auth_uid ex_catalog_env)"
    by (simp add: is_super_admin_def ex_defs)
  have r: "create_user_invitation ex_catalog_env ''New@X.com'' Admin (Some 10) ex_store
             = Inr (500, ?d')"
    unfolding create_user_invitation_Inr insert_invitation_Inr ex_lower function_resolves_empty
    using sa by (simp add: ex_format ex_defs days_def)
  have up: "list_ex is_upper (au_email ex_mixed_case_user)"
    by (simp add: ex_defs is_upper_def)
  have n: "select_invitation ex_signup_env ex_mixed_case_user ?d' = None"
    by (simp add: select_invitation_def ex_defs days_def)
  have y: "select_invitation ex_signup_env (ex_mixed_case_user\<lparr>au_email := ''new@x.com''\<rparr>) ?d'
             = Some ?row"
    by (simp add: select_invitation_def ex_defs days_def)
  from t [of ex_catalog_env "''New@X.com''" Admin "Some 10" ex_store, unfolded ex_lower] r
  have "\<forall>j \<in> set (invitations ?d'). i_id j = 500 \<longrightarrow> i_email j = ''new@x.com''"
    by blast
  with r up n y
  have created: "\<exists>d'. create_user_invitation ex_catalog_env ''New@X.com'' Admin (Some 10) ex_store
             = Inr (500, d') \<and>
      (\<forall>j \<in> set (invitations d'). i_id j = 500 \<longrightarrow> i_email j = ''new@x.com'') \<and>
      list_ex is_upper (au_email ex_mixed_case_user) \<and>
      select_invitation ex_signup_env ex_mixed_case_user d' = None \<and>
      (\<exists>j. select_invitation ex_signup_env (ex_mixed_case_user\<lparr>au_email := ''new@x.com''\<rparr>) d'
              = Some j \<and> i_id j = 500)"
    by (intro exI [of _ ?d']) simp
  show ?thesis
    by (intro conjI) (rule sel, rule low, rule m, rule cap, rule created)
qed

end
